(* ===== verification/Prelude.thy ===== *)
theory Prelude
  imports
    Complex_Main
    "HOL-Library.AList"
    "HOL-Library.Sublist"
    "HOL-Library.Char_ord"
    "HOL-Library.List_Lexorder"
    "HOL-Library.Multiset"
begin

text \<open>
  Shared vocabulary of the development: the Python values the sources manipulate and
  the behaviour of the built-in operations they call.
  \<^item> A Python exception that the model has to carry is a value of \<open>py_error\<close>;
    a fallible operation returns \<open>py_error + 'a\<close> (\<open>Inl\<close> the exception).
  \<^item> A Python \<open>dict\<close> keeps its keys in insertion order and overwrites a present key
    in place: it is an association list updated with \<open>AList.update\<close> and read with
    \<open>map_of\<close> (\<open>pydict\<close>). A \<open>Counter\<close> and \<open>dict.get(k, 0)\<close> read it
    with a default (\<open>dict_get\<close>).
  \<^item> A Python \<open>str\<close> is a \<open>string\<close>; a character of the model stands for the
    code point of the same number, so the model covers the Latin-1 range
    U+0000..U+00FF, where \<open>str.lower\<close>, \<open>str.isspace\<close> and
    \<open>str.splitlines\<close> are given by the tables below.
  \<^item> \<open>s.startswith(p)\<close> is \<open>prefix p s\<close>, \<open>p in s\<close> on strings is
    \<open>sublist p s\<close> (a contiguous piece), both from HOL-Library.Sublist.
  \<^item> Python floats are modelled as \<open>real\<close>: rounding is not modelled, division
    by zero is (it raises \<open>ZeroDivisionError\<close>).
\<close>

named_theorems pystr "evaluation rules of the Python string built-ins"

datatype py_error = IndexError | KeyError | ZeroDivisionError | RuntimeError | ValueError
  | AttributeError | SyntaxError | OSError | TypeError | FloatNaN \<comment> \<open>not an exception: a NumPy \<open>nan\<close> result, where the model stops\<close>

subsection \<open>Dictionaries\<close>

type_synonym ('k, 'v) pydict = "('k \<times> 'v) list"

definition dict_get :: "('k, 'v) pydict \<Rightarrow> 'k \<Rightarrow> 'v \<Rightarrow> 'v" where
  "dict_get d k dflt = (case map_of d k of None \<Rightarrow> dflt | Some v \<Rightarrow> v)"

text \<open>\<open>d[k]\<close> on a missing key raises \<open>KeyError\<close>.\<close>

definition dict_index :: "('k, 'v) pydict \<Rightarrow> 'k \<Rightarrow> py_error + 'v" where
  "dict_index d k = (case map_of d k of None \<Rightarrow> Inl KeyError | Some v \<Rightarrow> Inr v)"

abbreviation dict_keys :: "('k, 'v) pydict \<Rightarrow> 'k list" where
  "dict_keys d \<equiv> map fst d"

subsection \<open>Strings\<close>

definition py_isspace :: "char \<Rightarrow> bool" where
  "py_isspace c \<longleftrightarrow> (let n = of_char c :: nat in
     (9 \<le> n \<and> n \<le> 13) \<or> (28 \<le> n \<and> n \<le> 32) \<or> n = 133 \<or> n = 160)"

definition py_lower_char :: "char \<Rightarrow> char" where
  "py_lower_char c = (let n = of_char c :: nat in
     if (65 \<le> n \<and> n \<le> 90) \<or> (192 \<le> n \<and> n \<le> 222 \<and> n \<noteq> 215)
     then char_of (n + 32) else c)"

definition py_lower :: "string \<Rightarrow> string" where
  "py_lower s = map py_lower_char s"

text \<open>\<open>str.strip()\<close>: whitespace removed at both ends.\<close>

definition py_strip :: "string \<Rightarrow> string" where
  "py_strip s = rev (dropWhile py_isspace (rev (dropWhile py_isspace s)))"

text \<open>\<open>str.split()\<close> without a separator: the maximal runs of non-whitespace.\<close>

fun split_ws_acc :: "string \<Rightarrow> string \<Rightarrow> string list" where
  "split_ws_acc cur [] = (if cur = [] then [] else [rev cur])"
| "split_ws_acc cur (c # cs) =
     (if py_isspace c then (if cur = [] then split_ws_acc [] cs else rev cur # split_ws_acc [] cs)
      else split_ws_acc (c # cur) cs)"

definition py_split_ws :: "string \<Rightarrow> string list" where
  "py_split_ws s = split_ws_acc [] s"

text \<open>\<open>str.split(sep)\<close> for a one-character separator: the texts between separators,
  empty ones included. The accumulator holds the current piece reversed.\<close>

fun split_on_acc :: "char \<Rightarrow> string \<Rightarrow> string \<Rightarrow> string list" where
  "split_on_acc c cur [] = [rev cur]"
| "split_on_acc c cur (x # xs) = (if x = c then rev cur # split_on_acc c [] xs else split_on_acc c (x # cur) xs)"

definition py_split_on :: "char \<Rightarrow> string \<Rightarrow> string list" where
  "py_split_on c s = split_on_acc c [] s"

text \<open>
  \<open>str.splitlines()\<close>: the line boundaries in the modelled range are \<open>\n\<close>, \<open>\r\<close>,
  \<open>\r\n\<close> (one boundary), \<open>\v\<close>, \<open>\f\<close>, \<open>\x1c\<close>, \<open>\x1d\<close>,
  \<open>\x1e\<close> and \<open>\x85\<close>; a text that ends with a boundary has no empty last line.
  The accumulator holds the current line reversed.
\<close>

definition py_linebreak :: "char \<Rightarrow> bool" where
  "py_linebreak c \<longleftrightarrow> (let n = of_char c :: nat in
     n = 10 \<or> n = 11 \<or> n = 12 \<or> n = 13 \<or> n = 28 \<or> n = 29 \<or> n = 30 \<or> n = 133)"

fun splitlines_acc :: "string \<Rightarrow> string \<Rightarrow> string list" where
  "splitlines_acc cur [] = (if cur = [] then [] else [rev cur])"
| "splitlines_acc cur (c # cs) =
     (if py_linebreak c then
        rev cur # splitlines_acc [] (if of_char c = (13::nat) \<and> cs \<noteq> [] \<and> of_char (hd cs) = (10::nat)
                                      then tl cs else cs)
      else splitlines_acc (c # cur) cs)"

definition py_splitlines :: "string \<Rightarrow> string list" where
  "py_splitlines s = splitlines_acc [] s"

text \<open>
  \<open>s.split(':', 1)[1]\<close>: the text after the first colon, \<open>IndexError\<close> when there
  is none.
\<close>

definition after_first_colon :: "string \<Rightarrow> py_error + string" where
  "after_first_colon s =
     (if CHR '':'' \<in> set s then Inr (tl (dropWhile (\<lambda>c. c \<noteq> CHR '':'') s)) else Inl IndexError)"

text \<open>
  \<open>re.findall(r'\d+', s)[0]\<close> read by \<open>int\<close>: the first maximal run of decimal
  digits (only \<open>0\<close>..\<open>9\<close> are decimal digits in the modelled range), or
  \<open>IndexError\<close> when the text has no digit.
\<close>

definition is_digit :: "char \<Rightarrow> bool" where
  "is_digit c \<longleftrightarrow> (let n = of_char c :: nat in 48 \<le> n \<and> n \<le> 57)"

definition digit_val :: "char \<Rightarrow> nat" where
  "digit_val c = of_char c - 48"

definition digits_value :: "string \<Rightarrow> nat" where
  "digits_value ds = foldl (\<lambda>acc d. 10 * acc + digit_val d) 0 ds"

definition first_int :: "string \<Rightarrow> py_error + nat" where
  "first_int s =
     (let t = dropWhile (\<lambda>c. \<not> is_digit c) s in
      if t = [] then Inl IndexError else Inr (digits_value (takeWhile is_digit t)))"

text \<open>\<open>s.replace(old, '')\<close> for a non-empty \<open>old\<close>: every occurrence, left to right.\<close>

function remove_all :: "string \<Rightarrow> string \<Rightarrow> string" where
  "remove_all old [] = []"
| "remove_all old (c # cs) =
     (if old \<noteq> [] \<and> prefix old (c # cs) then remove_all old (drop (length old) (c # cs))
      else c # remove_all old cs)"
  by pat_completeness auto
termination
  by (relation "measure (\<lambda>(old, s). length s)") auto

text \<open>\<open>s.replace(old, new)\<close>: every occurrence, left to right, without overlaps; an empty
  \<open>old\<close> inserts \<open>new\<close> before every character and at the end.\<close>

function py_replace :: "string \<Rightarrow> string \<Rightarrow> string \<Rightarrow> string" where
  "py_replace old new [] = (if old = [] then new else [])"
| "py_replace old new (c # cs) =
     (if old = [] then new @ c # py_replace old new cs
      else if prefix old (c # cs) then new @ py_replace old new (drop (length old) (c # cs))
      else c # py_replace old new cs)"
  by pat_completeness auto
termination
  by (relation "measure (\<lambda>(old, new, s). length s)") auto

text \<open>\<open>sep.join(xs)\<close>.\<close>

definition py_join :: "string \<Rightarrow> string list \<Rightarrow> string" where
  "py_join sep xs = concat (case xs of [] \<Rightarrow> [] | x # ys \<Rightarrow> x # map (\<lambda>y. sep @ y) ys)"

subsection \<open>Slices and counts\<close>

text \<open>\<open>xs[:k]\<close>: a negative \<open>k\<close> counts from the end.\<close>

definition py_take :: "int \<Rightarrow> 'a list \<Rightarrow> 'a list" where
  "py_take k xs = (if 0 \<le> k then take (nat k) xs else take (nat (int (length xs) + k)) xs)"

text \<open>\<open>list.count(x)\<close> is \<open>count_list\<close> of Main.\<close>

subsection \<open>Generic lemmas\<close>

lemma py_lower_length [simp]: "length (py_lower s) = length s"
  by (simp add: py_lower_def)

lemma py_lower_idem [simp]: "py_lower (py_lower s) = py_lower s"
  by (simp add: py_lower_def py_lower_char_def Let_def)

lemma py_take_nonneg [simp]: "0 \<le> k \<Longrightarrow> py_take k xs = take (nat k) xs"
  by (simp add: py_take_def)

lemma nat_add_neg: "k < 0 \<Longrightarrow> nat (int n + k) = n - nat (- k)"
  by linarith

lemma py_take_neg: "k < 0 \<Longrightarrow> py_take k xs = take (length xs - nat (- k)) xs"
  by (simp add: py_take_def nat_add_neg)

lemma length_filter_update:
  "i < length xs \<Longrightarrow>
   length (filter P (xs[i := x])) + (if P (xs ! i) then 1 else 0) = length (filter P xs) + (if P x then 1 else 0)"
proof (induction xs arbitrary: i)
  case Nil
  then show ?case by simp
next
  case (Cons y ys)
  show ?case
  proof (cases i)
    case 0
    then show ?thesis by simp
  next
    case (Suc j)
    with Cons.prems have "j < length ys" by simp
    with Cons.IH [of j] Suc show ?thesis by auto
  qed
qed

lemma map_plus_0 [simp]: "map ((+) (0::nat)) xs = xs"
  by (induction xs) auto

lemma map_of_dict_update [simp]: "map_of (AList.update k v d) = (map_of d)(k \<mapsto> v)"
  by (rule update_conv')

lemma dict_get_update [simp]:
  "dict_get (AList.update k v d) k' dflt = (if k' = k then v else dict_get d k' dflt)"
  by (simp add: dict_get_def)

lemma eq_char_of_iff: "c = char_of n \<longleftrightarrow> take_bit 8 n = (of_char c :: nat)"
  using char_of_eq_iff [of n c] by (auto simp del: char_of_eq_iff)

lemma dict_get_Nil [simp]: "dict_get [] k dflt = dflt"
  by (simp add: dict_get_def)

lemma dict_get_notin: "k \<notin> set (dict_keys d) \<Longrightarrow> dict_get d k dflt = dflt"
  by (simp add: dict_get_def map_of_eq_None_iff [THEN iffD2])

lemma update_absent: "k \<notin> set (dict_keys d) \<Longrightarrow> AList.update k v d = d @ [(k, v)]"
  by (induction d) auto

lemma dict_keys_update: "set (dict_keys (AList.update k v d)) = insert k (set (dict_keys d))"
  by (simp add: dom_update)

lemma dict_index_Inr_iff: "dict_index d k = Inr v \<longleftrightarrow> map_of d k = Some v"
  by (simp add: dict_index_def split: option.splits)

lemma sublist_Nil_right_iff [pystr]: "sublist xs [] \<longleftrightarrow> xs = []"
  by simp

subsection \<open>Reals\<close>

text \<open>\<open>c * x / (x + k)\<close>, zero where the denominator is, grows with \<open>x\<close>.\<close>

lemma frac_mono:
  fixes x y k c :: real
  assumes "0 \<le> k" "0 \<le> c" "0 \<le> x" "x \<le> y"
  shows "(if x + k \<noteq> 0 then c * x / (x + k) else 0) \<le> (if y + k \<noteq> 0 then c * y / (y + k) else 0)"
proof (cases "x + k = 0")
  case True
  then show ?thesis using assms by (auto intro!: divide_nonneg_nonneg)
next
  case False
  then have xk: "0 < x + k" and yk: "0 < y + k" using assms by linarith+
  have "c * x * (y + k) \<le> c * y * (x + k)"
    using assms by (simp add: algebra_simps mult_left_mono mult_right_mono)
  then have "c * x / (x + k) \<le> c * y / (y + k)"
    using xk yk by (simp add: divide_le_eq le_divide_eq mult.commute mult.left_commute)
  with False yk show ?thesis by simp
qed

lemma sum_list_mono_on:
  fixes f g :: "'a \<Rightarrow> real"
  shows "(\<And>x. x \<in> set xs \<Longrightarrow> f x \<le> g x) \<Longrightarrow> sum_list (map f xs) \<le> sum_list (map g xs)"
  by (induction xs) (auto intro: add_mono)

lemma remove_all_py_replace: "remove_all old s = py_replace old [] s"
  by (induction old s rule: remove_all.induct) auto

lemma py_replace_self: "old \<noteq> [] \<Longrightarrow> py_replace old new old = new"
  by (cases old) auto

lemma py_replace_skip:
  assumes "old \<noteq> []" and "hd old \<notin> set h"
  shows "py_replace old new (h @ t) = h @ py_replace old new t"
  using assms(2)
proof (induction h)
  case (Cons c h)
  then have "\<not> prefix old (c # h @ t)" using assms(1) by (cases old) auto
  with Cons assms(1) show ?case by simp
qed simp

lemma map_of_foldl_update:
  "map_of (foldl (\<lambda>acc (k, v). AList.update k v acc) m xs) = map_of m ++ map_of (rev xs)"
  by (induction xs arbitrary: m) (auto simp: map_add_upd map_add_assoc [symmetric])

lemma map_of_functional:
  assumes "(k, v) \<in> set xs" and "\<And>v'. (k, v') \<in> set xs \<Longrightarrow> v' = v"
  shows "map_of xs k = Some v"
proof -
  obtain w where "map_of xs k = Some w" using weak_map_of_SomeI [OF assms(1)] by blast
  then show ?thesis using assms(2) map_of_SomeD by fastforce
qed

lemma set_map_filter_iff: "x \<in> set (List.map_filter f xs) \<longleftrightarrow> (\<exists>a\<in>set xs. f a = Some x)"
  by (induction xs) (auto simp: List.map_filter_simps split: option.splits)

lemma distinct_foldl_update:
  "distinct (map fst m) \<Longrightarrow> distinct (map fst (foldl (\<lambda>acc (k, v). AList.update k v acc) m xs))"
  by (induction xs arbitrary: m) (auto simp: distinct_update)

lemma foldl_update_distinct:
  "distinct (map fst (m @ xs)) \<Longrightarrow> foldl (\<lambda>acc (k, v). AList.update k v acc) m xs = m @ xs"
  by (induction xs arbitrary: m) (auto simp: update_absent)

lemma subseq_distinct_map: "subseq xs ys \<Longrightarrow> distinct (map f ys) \<Longrightarrow> distinct (map f xs)"
  by (induction rule: list_emb.induct) (auto dest: list_emb_set)

lemmas [pystr] = char_of_eq_iff eq_char_of_iff suffix_to_prefix sublist_Cons_right
  py_lower_def py_lower_char_def py_isspace_def py_split_ws_def py_strip_def py_linebreak_def py_splitlines_def
  is_digit_def digit_val_def digits_value_def first_int_def after_first_colon_def py_join_def py_split_on_def

end
