(* ===== verification/PyRepr.thy ===== *)
theory PyRepr
  imports Prelude
begin

text \<open>
  Python's text form of the values the crawler writes into its \<open>.meta\<close> files and the
  reading of that text back by \<open>eval\<close> in the parser. \<open>str(meta)\<close> prints a
  dictionary of strings and a float with \<open>repr\<close>; for a string, CPython chooses the
  quote (\<open>"\<close> when the text contains \<open>'\<close> and no \<open>"\<close>, else \<open>'\<close>),
  escapes the backslash and the chosen quote, writes tab, newline and carriage return as
  \<open>\t\<close>, \<open>\n\<close>, \<open>\r\<close>, and every other non-printable character as
  \<open>\xhh\<close> (lower-case hex). Over Latin-1, the printable characters are \<open>0x20\<close> to
  \<open>0x7e\<close> and \<open>0xa1\<close> to \<open>0xff\<close> except the soft hyphen \<open>0xad\<close>.

  \<open>eval\<close> accepts any Python expression; the model reads the literal subset that
  \<open>str(meta)\<close> produces: a dictionary display whose keys are string literals and whose
  values are string literals or decimal number literals. String literals are read with the
  escapes of Python's tokenizer (\<open>\\\<close>, \<open>\'\<close>, \<open>\"\<close>, \<open>\a\<close>, \<open>\b\<close>,
  \<open>\f\<close>, \<open>\n\<close>, \<open>\r\<close>, \<open>\t\<close>, \<open>\v\<close>, \<open>\xhh\<close>, a backslash before a
  newline, and an unknown escape kept as it is); octal and named escapes are not modelled.
  Any other text is \<open>SyntaxError\<close> here, where the real \<open>eval\<close> may run it.
\<close>

definition hex_digit :: "nat \<Rightarrow> char" where
  "hex_digit n = (if n < 10 then char_of (48 + n) else char_of (87 + n))"

definition is_hex :: "char \<Rightarrow> bool" where
  "is_hex c \<longleftrightarrow> is_digit c \<or> (let n = of_char c :: nat in (97 \<le> n \<and> n \<le> 102) \<or> (65 \<le> n \<and> n \<le> 70))"

definition hex_val :: "char \<Rightarrow> nat" where
  "hex_val c = (let n = of_char c :: nat in if n \<le> 57 then n - 48 else if n \<le> 70 then n - 55 else n - 87)"

definition py_printable :: "char \<Rightarrow> bool" where
  "py_printable c \<longleftrightarrow> (let n = of_char c :: nat in (32 \<le> n \<and> n \<le> 126) \<or> (161 \<le> n \<and> n \<noteq> 173))"

definition repr_char :: "char \<Rightarrow> char \<Rightarrow> string" where
  "repr_char q c =
     (if c = q \<or> c = CHR 0x5C then [CHR 0x5C, c]
      else if c = CHR 0x09 then [CHR 0x5C, CHR ''t'']
      else if c = CHR 0x0A then [CHR 0x5C, CHR ''n'']
      else if c = CHR 0x0D then [CHR 0x5C, CHR ''r'']
      else if py_printable c then [c]
      else [CHR 0x5C, CHR ''x'', hex_digit (of_char c div 16), hex_digit (of_char c mod 16)])"

definition py_repr_str :: "string \<Rightarrow> string" where
  "py_repr_str s =
     (let q = (if CHR 0x27 \<in> set s \<and> CHR 0x22 \<notin> set s then CHR 0x22 else CHR 0x27)
      in q # concat (map (repr_char q) s) @ [q])"

definition simple_escape :: "char \<Rightarrow> char option" where
  "simple_escape e =
     (if e = CHR 0x5C \<or> e = CHR 0x27 \<or> e = CHR 0x22 then Some e
      else if e = CHR ''a'' then Some (CHR 0x07)
      else if e = CHR ''b'' then Some (CHR 0x08)
      else if e = CHR ''f'' then Some (CHR 0x0C)
      else if e = CHR ''n'' then Some (CHR 0x0A)
      else if e = CHR ''r'' then Some (CHR 0x0D)
      else if e = CHR ''t'' then Some (CHR 0x09)
      else if e = CHR ''v'' then Some (CHR 0x0B)
      else None)"

text \<open>The body of a string literal up to the closing quote \<open>q\<close>: the characters read
  (reversed in \<open>acc\<close>) and the rest of the input.\<close>

fun lit_body :: "char \<Rightarrow> string \<Rightarrow> string \<Rightarrow> py_error + string \<times> string" where
  "lit_body q acc [] = Inl SyntaxError"
| "lit_body q acc (c # cs) =
     (if c = q then Inr (rev acc, cs)
      else if c = CHR 0x0A then Inl SyntaxError
      else if c \<noteq> CHR 0x5C then lit_body q (c # acc) cs
      else (case cs of
              [] \<Rightarrow> Inl SyntaxError
            | e # cs' \<Rightarrow>
                if e = CHR 0x0A then lit_body q acc cs'
                else if e = CHR ''x'' then
                  (case cs' of
                     h1 # h2 # cs'' \<Rightarrow>
                       if is_hex h1 \<and> is_hex h2
                       then lit_body q (char_of (16 * hex_val h1 + hex_val h2) # acc) cs''
                       else Inl SyntaxError
                   | _ \<Rightarrow> Inl SyntaxError)
                else (case simple_escape e of
                        Some c' \<Rightarrow> lit_body q (c' # acc) cs'
                      | None \<Rightarrow> lit_body q (e # CHR 0x5C # acc) cs')))"

definition read_str_lit :: "string \<Rightarrow> py_error + string \<times> string" where
  "read_str_lit s =
     (case s of
        [] \<Rightarrow> Inl SyntaxError
      | q # cs \<Rightarrow> if q = CHR 0x27 \<or> q = CHR 0x22 then lit_body q [] cs else Inl SyntaxError)"

datatype pyval = PStr string | PNum string

definition is_pyws :: "char \<Rightarrow> bool" where
  "is_pyws c \<longleftrightarrow> c \<in> set [CHR '' '', CHR 0x09, CHR 0x0C, CHR 0x0A, CHR 0x0D]"

abbreviation skip_ws :: "string \<Rightarrow> string" where
  "skip_ws \<equiv> dropWhile is_pyws"

text \<open>A decimal number literal, with an optional unary minus: digits, an optional fraction
  and an optional exponent; the value is kept as its text.\<close>

definition read_frac :: "string \<Rightarrow> string \<times> string" where
  "read_frac r =
     (if r \<noteq> [] \<and> hd r = CHR ''.'' then (CHR ''.'' # takeWhile is_digit (tl r), dropWhile is_digit (tl r))
      else ([], r))"

definition read_exp :: "string \<Rightarrow> py_error + string \<times> string" where
  "read_exp r =
     (if r \<noteq> [] \<and> (hd r = CHR ''e'' \<or> hd r = CHR ''E'') then
        (let es = (if tl r \<noteq> [] \<and> (hd (tl r) = CHR ''+'' \<or> hd (tl r) = CHR ''-'') then [hd (tl r)] else []);
             r3 = drop (Suc (length es)) r
         in if takeWhile is_digit r3 = [] then Inl SyntaxError
            else Inr (hd r # es @ takeWhile is_digit r3, dropWhile is_digit r3))
      else Inr ([], r))"

definition read_num :: "string \<Rightarrow> py_error + string \<times> string" where
  "read_num s =
     (let neg = (s \<noteq> [] \<and> hd s = CHR ''-''); s1 = (if neg then tl s else s); d1 = takeWhile is_digit s1
      in if d1 = [] then Inl SyntaxError
         else case read_frac (dropWhile is_digit s1) of
           (fr, r2) \<Rightarrow>
             (case read_exp r2 of
                Inl e \<Rightarrow> Inl e
              | Inr (ex, r3) \<Rightarrow> Inr ((if neg then ''-'' else []) @ d1 @ fr @ ex, r3)))"

definition read_value :: "string \<Rightarrow> py_error + pyval \<times> string" where
  "read_value s =
     (if s \<noteq> [] \<and> (hd s = CHR 0x27 \<or> hd s = CHR 0x22) then
        (case read_str_lit s of Inl e \<Rightarrow> Inl e | Inr (v, r) \<Rightarrow> Inr (PStr v, r))
      else (case read_num s of Inl e \<Rightarrow> Inl e | Inr (n, r) \<Rightarrow> Inr (PNum n, r)))"


subsection \<open>Lemmas\<close>

lemma hex_digit_ok: "n < 16 \<Longrightarrow> is_hex (hex_digit n) \<and> hex_val (hex_digit n) = n"
  by (auto simp: hex_digit_def is_hex_def hex_val_def is_digit_def Let_def)

lemma of_char_div_16: "of_char (c :: char) div 16 < (16 :: nat)"
  using nat_of_char_less_256 [of c] by (simp add: less_mult_imp_div_less)

lemma char_of_hex: "char_of (16 * (of_char c div 16) + of_char (c :: char) mod 16 :: nat) = c"
  by simp

lemma lit_body_repr:
  assumes "q = CHR 0x27 \<or> q = CHR 0x22"
  shows "lit_body q acc (concat (map (repr_char q) s) @ q # rest) = Inr (rev acc @ s, rest)"
proof (induction s arbitrary: acc)
  case Nil
  then show ?case by simp
next
  case (Cons c s)
  have q: "q \<noteq> CHR 0x5C" "q \<noteq> CHR 0x0A" "q \<noteq> CHR ''x''" using assms by auto
  show ?case
  proof (cases "c = q \<or> c = CHR 0x5C")
    case True
    then have "simple_escape c = Some c" using assms by (auto simp: simple_escape_def)
    with True q Cons show ?thesis by (auto simp: repr_char_def)
  next
    case nq: False
    show ?thesis
    proof (cases "c \<in> {CHR 0x09, CHR 0x0A, CHR 0x0D}")
      case True
      with nq q Cons show ?thesis by (auto simp: repr_char_def simple_escape_def)
    next
      case nc: False
      show ?thesis
      proof (cases "py_printable c")
        case True
        with nq nc q Cons show ?thesis by (simp add: repr_char_def)
      next
        case False
        have "is_hex (hex_digit (of_char c div 16)) \<and> hex_val (hex_digit (of_char c div 16)) = of_char c div 16"
          by (rule hex_digit_ok [OF of_char_div_16])
        moreover have "is_hex (hex_digit (of_char c mod 16)) \<and> hex_val (hex_digit (of_char c mod 16)) = of_char c mod 16"
          by (rule hex_digit_ok) simp
        ultimately show ?thesis
          using False nq nc q Cons by (simp add: repr_char_def char_of_hex)
      qed
    qed
  qed
qed

lemma lit_body_length: "lit_body q acc t = Inr (x, r) \<Longrightarrow> length r < length t"
proof (induction q acc t rule: lit_body.induct)
  case (2 q acc c cs)
  note IH = 2(1-5) and P = 2(6)
  consider (q) "c = q" | (nl) "c \<noteq> q" "c = CHR 0x0A" | (plain) "c \<noteq> q" "c \<noteq> CHR 0x0A" "c \<noteq> CHR 0x5C"
    | (bs) "c \<noteq> q" "c \<noteq> CHR 0x0A" "c = CHR 0x5C" by blast
  then show ?case
  proof cases
    case q
    then show ?thesis using P by simp
  next
    case nl
    then show ?thesis using P by simp
  next
    case plain
    then show ?thesis using P IH(1) by simp
  next
    case bs
    then obtain e cs' where cs: "cs = e # cs'" using P by (cases cs) auto
    consider (nl2) "e = CHR 0x0A" | (hx) "e \<noteq> CHR 0x0A" "e = CHR ''x''" | (esc) "e \<noteq> CHR 0x0A" "e \<noteq> CHR ''x''"
      by blast
    then show ?thesis
    proof cases
      case nl2
      then show ?thesis using P IH(2) bs cs by simp
    next
      case hx
      then obtain h1 h2 cs'' where "cs' = h1 # h2 # cs''" "is_hex h1" "is_hex h2"
        using P bs cs by (auto split: list.splits if_splits)
      then show ?thesis using P IH(3) [of "CHR ''x''" "h1 # h2 # cs''" h1 "h2 # cs''"] bs cs hx by simp
    next
      case esc
      show ?thesis
      proof (cases "simple_escape e")
        case None
        then show ?thesis using P IH(4) [of e cs'] bs cs esc by simp
      next
        case (Some c')
        then show ?thesis using P IH(5) [of e cs' c'] bs cs esc by simp
      qed
    qed
  qed
qed simp

lemma read_str_lit_length: "read_str_lit t = Inr (x, r) \<Longrightarrow> length r < length t"
  unfolding read_str_lit_def by (auto split: list.splits if_splits dest: lit_body_length)

lemma read_frac_length: "length (snd (read_frac r)) \<le> length r"
  using length_dropWhile_le [of is_digit "tl r"] by (auto simp: read_frac_def)

lemma read_exp_length: "read_exp r = Inr (x, r') \<Longrightarrow> length r' \<le> length r"
  by (auto simp: read_exp_def Let_def split: if_splits intro: order.trans [OF length_dropWhile_le])

lemma read_num_length: "read_num t = Inr (x, r) \<Longrightarrow> length r < length t"
proof -
  assume a: "read_num t = Inr (x, r)"
  define s1 where "s1 = (if t \<noteq> [] \<and> hd t = CHR ''-'' then tl t else t)"
  have d: "takeWhile is_digit s1 \<noteq> []" using a by (auto simp: read_num_def s1_def Let_def split: if_splits)
  obtain fr r2 where f: "read_frac (dropWhile is_digit s1) = (fr, r2)" by fastforce
  then obtain ex where "read_exp r2 = Inr (ex, r)"
    using a d by (auto simp: read_num_def s1_def Let_def split: if_splits sum.splits)
  then have "length r \<le> length r2" by (rule read_exp_length)
  also have "length r2 \<le> length (dropWhile is_digit s1)" using read_frac_length [of "dropWhile is_digit s1"] f by simp
  also have "length (dropWhile is_digit s1) < length s1"
    using d by (metis length_append less_add_same_cancel2 length_greater_0_conv takeWhile_dropWhile_id)
  also have "length s1 \<le> length t" by (simp add: s1_def)
  finally show ?thesis .
qed

lemma read_value_length: "read_value t = Inr (v, r) \<Longrightarrow> length r < length t"
  unfolding read_value_def
  by (auto split: if_splits sum.splits prod.splits dest: read_str_lit_length read_num_length)

lemma takeWhile_digits_append:
  "list_all is_digit d \<Longrightarrow> (rest = [] \<or> \<not> is_digit (hd rest)) \<Longrightarrow>
   takeWhile is_digit (d @ rest) = d \<and> dropWhile is_digit (d @ rest) = rest"
  by (induction d) (cases rest; auto)+

lemma read_num_decimal:
  assumes "list_all is_digit d1" "d1 \<noteq> []" "list_all is_digit d2"
    and "rest = [] \<or> (\<not> is_digit (hd rest) \<and> hd rest \<noteq> CHR ''e'' \<and> hd rest \<noteq> CHR ''E'')"
  shows "read_num (d1 @ CHR ''.'' # d2 @ rest) = Inr (d1 @ CHR ''.'' # d2, rest)"
proof -
  have dot: "\<not> is_digit (CHR ''.'')" by (simp add: is_digit_def)
  have "d1 \<noteq> [] \<Longrightarrow> hd d1 \<noteq> CHR ''-''" using assms(1) by (cases d1) (auto simp: is_digit_def)
  then have neg: "\<not> (d1 @ CHR ''.'' # d2 @ rest \<noteq> [] \<and> hd (d1 @ CHR ''.'' # d2 @ rest) = CHR ''-'')"
    using assms(2) by simp
  have t1: "takeWhile is_digit (d1 @ CHR ''.'' # d2 @ rest) = d1 \<and> dropWhile is_digit (d1 @ CHR ''.'' # d2 @ rest) = CHR ''.'' # d2 @ rest"
    using takeWhile_digits_append [OF assms(1), of "CHR ''.'' # d2 @ rest"] dot by simp
  have t2: "takeWhile is_digit (d2 @ rest) = d2 \<and> dropWhile is_digit (d2 @ rest) = rest"
    using takeWhile_digits_append [OF assms(3), of rest] assms(4) by auto
  have "read_exp rest = Inr ([], rest)" using assms(4) by (auto simp: read_exp_def)
  with neg t1 t2 assms(2) show ?thesis by (simp add: read_num_def read_frac_def)
qed

lemma read_str_lit_repr: "read_str_lit (py_repr_str s @ rest) = Inr (s, rest)"
proof -
  let ?q = "if CHR 0x27 \<in> set s \<and> CHR 0x22 \<notin> set s then CHR 0x22 else CHR 0x27"
  have "?q = CHR 0x27 \<or> ?q = CHR 0x22" by simp
  then have "lit_body ?q [] (concat (map (repr_char ?q) s) @ ?q # rest) = Inr (rev [] @ s, rest)"
    by (rule lit_body_repr)
  then show ?thesis by (simp add: py_repr_str_def read_str_lit_def Let_def)
qed


lemma py_repr_str_hd: "py_repr_str s \<noteq> [] \<and> (hd (py_repr_str s) = CHR 0x27 \<or> hd (py_repr_str s) = CHR 0x22)"
  by (simp add: py_repr_str_def Let_def)

lemma read_value_repr: "read_value (py_repr_str s @ rest) = Inr (PStr s, rest)"
  using py_repr_str_hd [of s] by (auto simp: read_value_def read_str_lit_repr)

end
