(* ===== verification/Url.thy ===== *)
theory Url
  imports PyRepr
begin

text \<open>
  Python's \<^verbatim>\<open>urllib.parse.urlparse\<close> (CPython 3.11.4 and later) on the strings the
  crawler gives it. This is standard-library code, not code of the repository: it is modelled so
  that the crawler's use of it (\<open>urlparse(url).path\<close>, \<open>.netloc\<close>, \<open>.scheme\<close>) can
  be evaluated and its failures are values of the model: \<open>ValueError('Invalid IPv6 URL')\<close>
  on an unbalanced bracket in the network location, and the \<open>ValueError\<close> of
  \<open>_check_bracketed_host\<close> when the bracketed host is neither an IPv6 address nor an
  \<open>IPvFuture\<close> literal. Leading C0 controls and spaces
  are stripped, tab, CR and LF are removed, the scheme is split off when the text before
  the first colon is a valid scheme, \<open>//\<close> introduces the network location (up to the
  first \<open>/\<close>, \<open>?\<close> or \<open>#\<close>), then fragment and query are cut off, and for
  schemes that use parameters the \<open>;params\<close> of the last path segment. The last check,
  \<open>_checknetloc\<close>, raises only when the NFKC normal form of a non-ASCII network location
  gains one of \<open>/?#@:\<close>; no character of Latin-1, the range of the model's strings,
  decomposes to one of them, so it never raises here and is left out.
\<close>

record parsed_url =
  u_scheme :: string
  u_netloc :: string
  u_path :: string
  u_params :: string
  u_query :: string
  u_fragment :: string

definition is_ascii_alpha :: "char \<Rightarrow> bool" where
  "is_ascii_alpha c \<longleftrightarrow> (let n = of_char c :: nat in (65 \<le> n \<and> n \<le> 90) \<or> (97 \<le> n \<and> n \<le> 122))"

definition is_scheme_char :: "char \<Rightarrow> bool" where
  "is_scheme_char c \<longleftrightarrow> is_ascii_alpha c \<or> is_digit c \<or> c \<in> set ''+-.''"

definition url_clean :: "string \<Rightarrow> string" where
  "url_clean s = filter (\<lambda>c. c \<notin> set [CHR 0x09, CHR 0x0D, CHR 0x0A])
                   (dropWhile (\<lambda>c. of_char c \<le> (32::nat)) s)"

definition split_scheme :: "string \<Rightarrow> string \<times> string" where
  "split_scheme s =
     (let pre = takeWhile (\<lambda>c. c \<noteq> CHR '':'') s in
      if pre \<noteq> [] \<and> length pre < length s \<and> is_ascii_alpha (hd pre) \<and> list_all is_scheme_char pre
      then (py_lower pre, drop (Suc (length pre)) s) else ([], s))"

definition split_netloc :: "string \<Rightarrow> string \<times> string" where
  "split_netloc s =
     (if take 2 s = ''//'' then
        (takeWhile (\<lambda>c. c \<notin> set ''/?#'') (drop 2 s), dropWhile (\<lambda>c. c \<notin> set ''/?#'') (drop 2 s))
      else ([], s))"

definition cut_at :: "char \<Rightarrow> string \<Rightarrow> string \<times> string" where
  "cut_at c s = (if c \<in> set s then (takeWhile (\<lambda>x. x \<noteq> c) s, tl (dropWhile (\<lambda>x. x \<noteq> c) s)) else (s, []))"

definition uses_params :: "string list" where
  "uses_params = ['''', ''ftp'', ''hdl'', ''prospero'', ''http'', ''imap'', ''https'', ''shttp'', ''rtsp'',
                  ''rtsps'', ''rtspu'', ''sip'', ''sips'', ''mms'', ''sftp'', ''tel'']"

text \<open>
  \<open>_splitparams\<close>: the first \<open>;\<close> after the last \<open>/\<close> (or the first \<open>;\<close> when
  there is no \<open>/\<close>).
\<close>

definition split_params :: "string \<Rightarrow> string \<times> string" where
  "split_params p =
     (if CHR ''/'' \<in> set p then
        (let k = length p - length (takeWhile (\<lambda>c. c \<noteq> CHR ''/'') (rev p));
             seg = drop k p
         in if CHR '';'' \<in> set seg then (take k p @ fst (cut_at CHR '';'' seg), snd (cut_at CHR '';'' seg))
            else (p, []))
      else cut_at CHR '';'' p)"

definition unbalanced_brackets :: "string \<Rightarrow> bool" where
  "unbalanced_brackets n \<longleftrightarrow>
     (CHR ''['' \<in> set n \<and> CHR '']'' \<notin> set n) \<or> (CHR '']'' \<in> set n \<and> CHR ''['' \<notin> set n)"

text \<open>
  \<open>_check_bracketed_host\<close>, applied to the text between the first \<open>[\<close> and the next
  \<open>]\<close> of a network location: an \<open>IPvFuture\<close> literal
  (\<open>re.match(r"\Av[a-fA-F0-9]+\..+\Z", h)\<close>) when it starts with \<open>v\<close>, otherwise an
  address that \<open>ipaddress.ip_address\<close> reads as IPv6 (an IPv4 address is refused too).
  Only whether \<open>ipaddress\<close> accepts the text is modelled, not the integer it computes:
  the two hextets that replace an embedded IPv4 suffix are always valid and are written
  \<open>0\<close> here.
\<close>

definition ipv4_octet_ok :: "string \<Rightarrow> bool" where
  "ipv4_octet_ok oc \<longleftrightarrow>
     oc \<noteq> [] \<and> list_all is_digit oc \<and> length oc \<le> 3 \<and> (oc = ''0'' \<or> hd oc \<noteq> CHR ''0'') \<and>
     digits_value oc \<le> 255"

definition ipv4_ok :: "string \<Rightarrow> bool" where
  "ipv4_ok s \<longleftrightarrow>
     CHR ''/'' \<notin> set s \<and> s \<noteq> [] \<and>
     (let os = py_split_on CHR ''.'' s in length os = 4 \<and> list_all ipv4_octet_ok os)"

definition hextet_ok :: "string \<Rightarrow> bool" where
  "hextet_ok h \<longleftrightarrow> h \<noteq> [] \<and> list_all is_hex h \<and> length h \<le> 4"

text \<open>\<open>IPv6Address._ip_int_from_string\<close> after the IPv4 suffix: at most nine parts, at most
  one empty inner part (\<open>::\<close>), an empty first or last part only next to it, at least
  one hextet skipped by \<open>::\<close>, and every hextet read a valid one.\<close>

definition ipv6_parts_ok :: "string list \<Rightarrow> bool" where
  "ipv6_parts_ok ps =
     (let n = length ps; skips = filter (\<lambda>i. ps ! i = []) [1..<n - 1] in
      if 9 < n then False
      else (case skips of
        [] \<Rightarrow> n = 8 \<and> ps ! 0 \<noteq> [] \<and> ps ! (n - 1) \<noteq> [] \<and> list_all hextet_ok ps
      | [i] \<Rightarrow>
          (let hi = (if ps ! 0 = [] then i - 1 else i);
               lo = (if ps ! (n - 1) = [] then n - i - 2 else n - i - 1)
           in (if ps ! 0 = [] then hi = 0 else True) \<and> (if ps ! (n - 1) = [] then lo = 0 else True) \<and>
              hi + lo < 8 \<and> list_all hextet_ok (take hi ps @ drop (n - lo) ps))
      | _ \<Rightarrow> False))"

definition ipv6_addr_ok :: "string \<Rightarrow> bool" where
  "ipv6_addr_ok a =
     (let ps = py_split_on CHR '':'' a in
      if a = [] \<or> length ps < 3 then False
      else if CHR ''.'' \<in> set (last ps) then ipv4_ok (last ps) \<and> ipv6_parts_ok (butlast ps @ [''0'', ''0''])
      else ipv6_parts_ok ps)"

text \<open>\<open>IPv6Address(s)\<close>: no \<open>/\<close>, and a scope \<open>%id\<close> split off, which must be
  non-empty and hold no second \<open>%\<close>.\<close>

definition ipv6_ok :: "string \<Rightarrow> bool" where
  "ipv6_ok s =
     (CHR ''/'' \<notin> set s \<and>
      (if CHR ''%'' \<in> set s then
         (let scope = tl (dropWhile (\<lambda>c. c \<noteq> CHR ''%'') s)
          in scope \<noteq> [] \<and> CHR ''%'' \<notin> set scope \<and> ipv6_addr_ok (takeWhile (\<lambda>c. c \<noteq> CHR ''%'') s))
       else ipv6_addr_ok s))"

definition ipvfuture_ok :: "string \<Rightarrow> bool" where
  "ipvfuture_ok h =
     (let rest = dropWhile is_hex (drop 1 h) in
      take 1 h = ''v'' \<and> takeWhile is_hex (drop 1 h) \<noteq> [] \<and> take 1 rest = ''.'' \<and>
      tl rest \<noteq> [] \<and> CHR 0x0A \<notin> set (tl rest))"

definition check_bracketed_host :: "string \<Rightarrow> py_error + unit" where
  "check_bracketed_host h =
     (if take 1 h = ''v'' then (if ipvfuture_ok h then Inr () else Inl ValueError)
      else if ipv6_ok h then Inr () else Inl ValueError)"

definition bracketed_host :: "string \<Rightarrow> string" where
  "bracketed_host net = takeWhile (\<lambda>c. c \<noteq> CHR '']'') (tl (dropWhile (\<lambda>c. c \<noteq> CHR ''['') net))"

definition urlparse :: "string \<Rightarrow> py_error + parsed_url" where
  "urlparse s =
     (let u = url_clean s;
          (sch, r1) = split_scheme u;
          (net, r2) = split_netloc r1
      in if unbalanced_brackets net then Inl ValueError
         else if CHR ''['' \<in> set net \<and> CHR '']'' \<in> set net \<and> isl (check_bracketed_host (bracketed_host net))
         then Inl ValueError
         else
           let (r3, frag) = cut_at CHR ''#'' r2;
               (r4, qry) = cut_at CHR ''?'' r3;
               (pth, prm) = (if sch \<in> set uses_params \<and> CHR '';'' \<in> set r4 then split_params r4 else (r4, []))
           in Inr \<lparr>u_scheme = sch, u_netloc = net, u_path = pth, u_params = prm, u_query = qry,
                   u_fragment = frag\<rparr>)"

lemmas url_defs = urlparse_def url_clean_def split_scheme_def split_netloc_def cut_at_def
  split_params_def unbalanced_brackets_def uses_params_def is_scheme_char_def is_ascii_alpha_def
  bracketed_host_def check_bracketed_host_def


subsection \<open>Lemmas\<close>

lemma url_clean_set: "set (url_clean s) \<subseteq> set s"
  by (auto simp: url_clean_def dest: set_dropWhileD)

lemma split_scheme_set: "set (snd (split_scheme s)) \<subseteq> set s"
  by (auto simp: split_scheme_def Let_def dest: in_set_dropD)

lemma split_netloc_set: "set (fst (split_netloc s)) \<subseteq> set s"
  by (auto simp: split_netloc_def dest: set_takeWhileD in_set_dropD)

text \<open>A URL without brackets never makes \<open>urlparse\<close> raise.\<close>

lemma urlparse_no_brackets:
  assumes "CHR ''['' \<notin> set s" "CHR '']'' \<notin> set s"
  shows "\<exists>p. urlparse s = Inr p"
proof -
  obtain sch r1 where sc: "split_scheme (url_clean s) = (sch, r1)" by fastforce
  obtain net r2 where nl: "split_netloc r1 = (net, r2)" by fastforce
  have "set net \<subseteq> set s"
    using split_netloc_set [of r1] split_scheme_set [of "url_clean s"] url_clean_set [of s] sc nl by auto
  then have "CHR ''['' \<notin> set net" "CHR '']'' \<notin> set net" using assms by auto
  then show ?thesis using sc nl by (simp add: urlparse_def unbalanced_brackets_def split: prod.split)
qed

text \<open>A bracketed IPv6 host is accepted, a bracketed name is not.\<close>

lemma urlparse_bracketed:
  "urlparse ''http://[::1]/a'' =
     Inr \<lparr>u_scheme = ''http'', u_netloc = ''[::1]'', u_path = ''/a'', u_params = [], u_query = [], u_fragment = []\<rparr>"
  "urlparse ''http://[x]/a'' = Inl ValueError"
  by (simp_all add: url_defs ipv6_ok_def ipv6_addr_ok_def ipv6_parts_ok_def hextet_ok_def is_hex_def pystr Let_def)

end
