(* ===== verification/Robots.thy ===== *)
theory Robots
  imports Url
begin

text \<open>
  The politeness registry entry \<open>RobotsTxt\<close> of \<^verbatim>\<open>src/src/crawler.py\<close> (lines
  10--53): one object per \<open>scheme://netloc\<close> domain, holding the disallowed prefixes
  (\<open>rules\<close>, a dict whose keys are the prefixes), the crawl delay in whole seconds and
  the time of the last access per network location. The constructor fetches
  \<open>/robots.txt\<close> through \<open>asyncio.run\<close> and swallows every exception; the response
  is an input of the model (\<open>robots_resp\<close>), and so is whether an event loop is already
  running in the thread, in which case \<open>asyncio.run\<close> raises \<open>RuntimeError\<close> before
  any request is made. \<open>_parse\<close> mutates the object line by line, so an exception in
  the middle (\<open>re.findall(...)[0]\<close> on a \<open>crawl-delay:\<close> line without digits)
  keeps the updates made so far and drops the rest of the file. \<open>wait\<close> reads the
  clock, sleeps and records the clock again; the clock is a real number of seconds and
  the time the sleep overshoots is an input (\<open>slack \<ge> 0\<close>).
\<close>

record robots =
  r_domain :: string
  rules :: "(string, bool) pydict"
  crawl_delay :: nat
  last_access :: "(string, real) pydict"

datatype robots_resp = RobotsNetError | RobotsHttp nat string

definition robots_new :: "string \<Rightarrow> robots" where
  "robots_new d = \<lparr>r_domain = d, rules = [], crawl_delay = 1, last_access = []\<rparr>"

definition parse_line :: "robots \<Rightarrow> string \<Rightarrow> py_error + robots" where
  "parse_line r line =
     (if prefix ''crawl-delay:'' (py_lower line) then
        (case first_int line of Inl e \<Rightarrow> Inl e | Inr n \<Rightarrow> Inr (r\<lparr>crawl_delay := n\<rparr>))
      else if prefix ''disallow:'' (py_lower line) then
        (case after_first_colon line of
           Inl e \<Rightarrow> Inl e
         | Inr rest \<Rightarrow> Inr (r\<lparr>rules := AList.update (py_strip rest) True (rules r)\<rparr>))
      else Inr r)"

fun parse_lines :: "robots \<Rightarrow> string list \<Rightarrow> robots \<times> py_error option" where
  "parse_lines r [] = (r, None)"
| "parse_lines r (l # ls) = (case parse_line r l of Inl e \<Rightarrow> (r, Some e) | Inr r' \<Rightarrow> parse_lines r' ls)"

definition robots_parse :: "robots \<Rightarrow> string \<Rightarrow> robots \<times> py_error option" where
  "robots_parse r text = parse_lines r (py_splitlines text)"

definition fetch_robots :: "bool \<Rightarrow> robots_resp \<Rightarrow> robots \<Rightarrow> robots" where
  "fetch_robots loop_running resp r =
     (if loop_running then r
      else case resp of
             RobotsNetError \<Rightarrow> r
           | RobotsHttp status text \<Rightarrow> if status = 200 then fst (robots_parse r text) else r)"

definition robots_init :: "string \<Rightarrow> bool \<Rightarrow> robots_resp \<Rightarrow> robots" where
  "robots_init d loop_running resp = fetch_robots loop_running resp (robots_new d)"

fun allowed_path :: "string list \<Rightarrow> string \<Rightarrow> bool" where
  "allowed_path [] path = True"
| "allowed_path (rule # rs) path = (if prefix rule path then False else allowed_path rs path)"

definition allowed :: "robots \<Rightarrow> string \<Rightarrow> py_error + bool" where
  "allowed r u = (case urlparse u of Inl e \<Rightarrow> Inl e | Inr p \<Rightarrow> Inr (allowed_path (dict_keys (rules r)) (u_path p)))"

definition robots_wait :: "robots \<Rightarrow> string \<Rightarrow> real \<Rightarrow> real \<Rightarrow> py_error + robots \<times> real" where
  "robots_wait r u now slack =
     (case urlparse u of
        Inl e \<Rightarrow> Inl e
      | Inr p \<Rightarrow>
          (let netloc = u_netloc p;
               last = dict_get (last_access r) netloc 0;
               wait_time = max 0 (real (crawl_delay r) - (now - last));
               t = now + wait_time + slack
           in Inr (r\<lparr>last_access := AList.update netloc t (last_access r)\<rparr>, t)))"

subsection \<open>Lemmas\<close>

lemma allowed_path_iff: "allowed_path rs path \<longleftrightarrow> (\<forall>rule \<in> set rs. \<not> prefix rule path)"
  by (induction rs) auto

lemma robots_init_running [simp]: "robots_init d True resp = robots_new d"
  by (simp add: robots_init_def fetch_robots_def)

lemma parse_line_keeps_rule:
  "parse_line r l = Inr r' \<Longrightarrow> k \<in> fst ` set (rules r) \<Longrightarrow> k \<in> fst ` set (rules r')"
  by (force simp: parse_line_def dom_update split: if_splits sum.splits)

lemma parse_lines_keeps_rule:
  "parse_lines r ls = (r', e) \<Longrightarrow> k \<in> fst ` set (rules r) \<Longrightarrow> k \<in> fst ` set (rules r')"
proof (induction r ls rule: parse_lines.induct)
  case (2 r l ls)
  show ?case
  proof (cases "parse_line r l")
    case (Inr r1)
    then show ?thesis using 2 parse_line_keeps_rule [OF Inr 2(3)] by simp
  qed (use 2 in simp)
qed simp

lemma parse_lines_append:
  "parse_lines r ls1 = (r1, None) \<Longrightarrow> parse_lines r (ls1 @ ls2) = parse_lines r1 ls2"
  by (induction r ls1 rule: parse_lines.induct) (auto split: sum.splits)

lemma disallow_not_delay: "prefix ''disallow:'' s \<Longrightarrow> \<not> prefix ''crawl-delay:'' s"
  by (auto simp: prefix_def)

text \<open>
  C36. An empty \<open>Disallow:\<close> line, which in robots.txt means that nothing is disallowed,
  becomes the rule \<open>''\<close>. Whatever lines precede it (as long as they parse) and whatever
  lines follow it, including a line that raises, the rule stays in the policy, and since
  \<open>''\<close> is a prefix of every path, every URL that parses is then disallowed.
\<close>

theorem empty_disallow_blocks_all:
  assumes pre: "parse_lines r ls1 = (r1, None)"
    and b: "prefix ''disallow:'' (py_lower b)" "after_first_colon b = Inr rest" "py_strip rest = []"
    and run: "parse_lines r (ls1 @ b # ls2) = (r', err)"
  shows "allowed r' u = (case urlparse u of Inl e \<Rightarrow> Inl e | Inr p \<Rightarrow> Inr False)"
proof -
  have "parse_line r1 b = Inr (r1\<lparr>rules := AList.update [] True (rules r1)\<rparr>)"
    using b disallow_not_delay [OF b(1)] by (simp add: parse_line_def)
  then have "parse_lines (r1\<lparr>rules := AList.update [] True (rules r1)\<rparr>) ls2 = (r', err)"
    using run parse_lines_append [OF pre, of "b # ls2"] by simp
  moreover have "[] \<in> fst ` set (rules (r1\<lparr>rules := AList.update [] True (rules r1)\<rparr>))"
    by (simp add: dom_update)
  ultimately have "[] \<in> fst ` set (rules r')" by (rule parse_lines_keeps_rule)
  then have "\<not> allowed_path (dict_keys (rules r')) path" for path by (force simp: allowed_path_iff)
  then show ?thesis by (simp add: allowed_def split: sum.splits)
qed

theorem empty_disallow_blocks_all_witness:
  "parse_lines (robots_new ''http://x.org'') [''User-agent: *''] = (robots_new ''http://x.org'', None) \<and>
   prefix ''disallow:'' (py_lower ''Disallow: '') \<and> after_first_colon ''Disallow: '' = Inr '' '' \<and> py_strip '' '' = [] \<and>
   allowed (fst (parse_lines (robots_new ''http://x.org'') [''User-agent: *'', ''Disallow: '', ''Disallow: /private'']))
     ''http://x.org/index.html'' = Inr False"
proof -
  have pre: "parse_lines (robots_new ''http://x.org'') [''User-agent: *''] = (robots_new ''http://x.org'', None)"
    by (simp add: parse_line_def pystr)
  have b: "prefix ''disallow:'' (py_lower ''Disallow: '')" "after_first_colon ''Disallow: '' = Inr '' ''"
    "py_strip '' '' = []"
    by (simp_all add: pystr)
  have "allowed (fst (parse_lines (robots_new ''http://x.org'') ([''User-agent: *''] @ ''Disallow: '' # [''Disallow: /private''])))
     ''http://x.org/index.html'' = (case urlparse ''http://x.org/index.html'' of Inl e \<Rightarrow> Inl e | Inr p \<Rightarrow> Inr False)"
    using empty_disallow_blocks_all [OF pre b, of "[''Disallow: /private'']"] by (metis prod.collapse)
  moreover have "urlparse ''http://x.org/index.html'' \<noteq> Inl e" for e by (simp add: url_defs pystr Let_def)
  ultimately show ?thesis using pre b by (simp split: sum.splits)
qed

text \<open>
  C37. A \<open>crawl-delay:\<close> line without digits raises \<open>IndexError\<close> inside \<open>_parse\<close>,
  which \<open>_fetch_robots\<close> swallows: the policy keeps what the lines before it set, and every
  line after it, whatever it says, is lost (a following \<open>Disallow\<close> is not honoured).
\<close>

theorem crawl_delay_without_digits:
  assumes "parse_lines r ls1 = (r1, None)"
    and "prefix ''crawl-delay:'' (py_lower b)" "\<not> list_ex is_digit b"
  shows "parse_lines r (ls1 @ b # ls2) = (r1, Some IndexError)"
proof -
  have "dropWhile (\<lambda>c. \<not> is_digit c) b = []" using assms(3) by (simp add: list_ex_iff)
  then have "parse_line r1 b = Inl IndexError" using assms(2) by (simp add: parse_line_def first_int_def)
  then show ?thesis using parse_lines_append [OF assms(1), of "b # ls2"] by simp
qed

theorem crawl_delay_without_digits_witness:
  "parse_lines (robots_new ''http://x.org'') [''Disallow: /a''] =
     ((robots_new ''http://x.org'')\<lparr>rules := [(''/a'', True)]\<rparr>, None) \<and>
   prefix ''crawl-delay:'' (py_lower ''Crawl-delay: fast'') \<and> \<not> list_ex is_digit ''Crawl-delay: fast'' \<and>
   parse_lines (robots_new ''http://x.org'') [''Disallow: /a'', ''Crawl-delay: fast'', ''Disallow: /private''] =
     ((robots_new ''http://x.org'')\<lparr>rules := [(''/a'', True)]\<rparr>, Some IndexError)"
proof -
  have pre: "parse_lines (robots_new ''http://x.org'') [''Disallow: /a''] =
     ((robots_new ''http://x.org'')\<lparr>rules := [(''/a'', True)]\<rparr>, None)"
    by (simp add: parse_line_def robots_new_def pystr)
  have b: "prefix ''crawl-delay:'' (py_lower ''Crawl-delay: fast'')" "\<not> list_ex is_digit ''Crawl-delay: fast''"
    by (simp_all add: pystr)
  show ?thesis using crawl_delay_without_digits [OF pre b, of "[''Disallow: /private'']"] pre b by simp
qed

end
