(* ===== verification/Crawler.thy ===== *)
theory Crawler
  imports Robots
begin

text \<open>
  \<open>Crawler\<close> of \<^verbatim>\<open>src/src/crawler.py\<close> (lines 55--120) as a state machine.
  \<open>crawl\<close> starts \<open>max_concurrency\<close> asyncio workers on one thread; a worker runs
  without interruption between two points where it really suspends, so each step of the
  model is one such uninterrupted stretch of one worker:
  \<^item> \<open>Pop i u slack\<close>: worker \<open>i\<close> checks the loop condition, pops \<open>u\<close> from
    the frontier (\<open>set.pop\<close> returns an arbitrary element: the event names it), skips
    it if visited, else runs \<open>fetch\<close> up to the network request: the registry entry
    (created on first use), \<open>allowed\<close>, and \<open>wait\<close>, whose \<open>time.sleep\<close> blocks
    the whole thread and is therefore part of the same step (\<open>slack\<close> is how much the
    sleep overshoots). The semaphore never suspends: it has as many permits as workers.
  \<^item> \<open>Resp i r\<close>: the network answer \<open>r\<close> for worker \<open>i\<close> arrives and the rest of
    the iteration runs: \<open>save\<close>, \<open>visited.add\<close>, \<open>extract_links\<close> (the anchors'
    \<open>href\<close>s that BeautifulSoup finds are part of \<open>r\<close>; \<open>urljoin\<close> is a parameter
    of the configuration) and the frontier update.
  \<^item> \<open>Exit i\<close>: worker \<open>i\<close> finds the frontier empty or the limit reached and ends.
  \<^item> \<open>Tick dt\<close>: time passes.
  An exception that escapes a worker (a \<open>ValueError\<close> of \<open>urlparse\<close> or
  \<open>urljoin\<close>) ends \<open>asyncio.gather\<close> and with it the crawl: \<open>crawl_error\<close> is set
  and no step is enabled afterwards. The storage directory is a map from URL to the saved
  page (the files are named by the SHA-256 of the URL, taken to be injective). The field
  \<open>access_log\<close> is a ghost: it records every access time that \<open>wait\<close> writes, with
  the registry key and network location, newest first, so that politeness can be stated.
\<close>

datatype wpc = WLoop | WFetch string | WDone

text \<open>
  The answer to \<open>session.get\<close>: a failure (connection error, timeout, decoding error:
  every exception, which \<open>fetch\<close> catches), or status, \<open>content-type\<close> header
  (empty when absent), body text and the \<open>href\<close>s of its anchors.
\<close>

datatype fetch_resp = NetFail | HttpResp nat string string "string list"

record stored_page =
  page_html :: string
  page_fetch_time :: real

record crawler =
  frontier :: "string set"
  visited :: "string set"
  robots_reg :: "(string, robots) pydict"
  storage :: "string \<rightharpoonup> stored_page"
  clock :: real
  workers :: "wpc list"
  crawl_error :: "py_error option"
  access_log :: "(string \<times> string \<times> real) list"

record crawl_cfg =
  limit :: nat
  loop_running :: bool
  robots_response :: "string \<Rightarrow> robots_resp"
  urljoin :: "string \<Rightarrow> string \<Rightarrow> py_error + string"

datatype event = Pop nat string real | Resp nat fetch_resp | Exit nat | Tick real

definition crawler_new :: "real \<Rightarrow> crawler" where
  "crawler_new t0 = \<lparr>frontier = {}, visited = {}, robots_reg = [], storage = Map.empty, clock = t0,
     workers = [], crawl_error = None, access_log = []\<rparr>"

definition crawl_start :: "crawler \<Rightarrow> string list \<Rightarrow> nat \<Rightarrow> crawler" where
  "crawl_start s seeds w = s\<lparr>frontier := frontier s \<union> set seeds, workers := replicate w WLoop\<rparr>"

definition worker_continue :: "crawl_cfg \<Rightarrow> crawler \<Rightarrow> bool" where
  "worker_continue cfg s \<longleftrightarrow> frontier s \<noteq> {} \<and> card (visited s) < limit cfg"

definition robots_domain :: "parsed_url \<Rightarrow> string" where
  "robots_domain p = u_scheme p @ ''://'' @ u_netloc p"

text \<open>\<open>self.robots[domain]\<close> once the entry exists (the default is never used).\<close>

definition reg_lookup :: "(string, robots) pydict \<Rightarrow> string \<Rightarrow> robots" where
  "reg_lookup reg d = dict_get reg d (robots_new d)"

definition reg_ensure :: "crawl_cfg \<Rightarrow> (string, robots) pydict \<Rightarrow> string \<Rightarrow> (string, robots) pydict" where
  "reg_ensure cfg reg d =
     (if d \<in> set (dict_keys reg) then reg
      else AList.update d (robots_init d (loop_running cfg) (robots_response cfg d)) reg)"

text \<open>\<open>fetch\<close> up to the request: \<open>Inr (s', True)\<close> when the request is sent.\<close>

definition fetch_start :: "crawl_cfg \<Rightarrow> crawler \<Rightarrow> string \<Rightarrow> real \<Rightarrow> py_error + crawler \<times> bool" where
  "fetch_start cfg s u slack =
     (case urlparse u of
        Inl e \<Rightarrow> Inl e
      | Inr p \<Rightarrow>
          (let d = robots_domain p;
               reg = reg_ensure cfg (robots_reg s) d;
               r = reg_lookup reg d
           in case allowed r u of
                Inl e \<Rightarrow> Inl e
              | Inr False \<Rightarrow> Inr (s\<lparr>robots_reg := reg\<rparr>, False)
              | Inr True \<Rightarrow>
                  (case robots_wait r u (clock s) slack of
                     Inl e \<Rightarrow> Inl e
                   | Inr (r', t) \<Rightarrow>
                       Inr (s\<lparr>robots_reg := AList.update d r' reg, clock := t,
                              access_log := (d, u_netloc p, t) # access_log s\<rparr>, True))))"

definition fetch_result :: "fetch_resp \<Rightarrow> (string \<times> string list) option" where
  "fetch_result r =
     (case r of
        NetFail \<Rightarrow> None
      | HttpResp status ctype text hrefs \<Rightarrow>
          if status = 200 \<and> sublist ''text/html'' ctype then Some (text, hrefs) else None)"

fun extract_links :: "(string \<Rightarrow> string \<Rightarrow> py_error + string) \<Rightarrow> string \<Rightarrow> string list \<Rightarrow> py_error + string set" where
  "extract_links join base [] = Inr {}"
| "extract_links join base (h # hs) =
     (if prefix ''http'' h then
        (case extract_links join base hs of Inl e \<Rightarrow> Inl e | Inr L \<Rightarrow> Inr (insert h L))
      else if prefix ''/'' h then
        (case join base h of
           Inl e \<Rightarrow> Inl e
         | Inr l \<Rightarrow> (case extract_links join base hs of Inl e \<Rightarrow> Inl e | Inr L \<Rightarrow> Inr (insert l L)))
      else extract_links join base hs)"

definition save_page :: "crawler \<Rightarrow> string \<Rightarrow> string \<Rightarrow> crawler" where
  "save_page s u html = s\<lparr>storage := (storage s)(u \<mapsto> \<lparr>page_html = html, page_fetch_time = clock s\<rparr>)\<rparr>"

definition pop_step :: "crawl_cfg \<Rightarrow> crawler \<Rightarrow> nat \<Rightarrow> string \<Rightarrow> real \<Rightarrow> crawler" where
  "pop_step cfg s i u slack =
     (let s1 = s\<lparr>frontier := frontier s - {u}\<rparr> in
      if u \<in> visited s1 then s1
      else case fetch_start cfg s1 u slack of
             Inl e \<Rightarrow> s1\<lparr>crawl_error := Some e\<rparr>
           | Inr (s2, False) \<Rightarrow> s2
           | Inr (s2, True) \<Rightarrow> s2\<lparr>workers := (workers s2)[i := WFetch u]\<rparr>)"

definition resp_step :: "crawl_cfg \<Rightarrow> crawler \<Rightarrow> nat \<Rightarrow> string \<Rightarrow> fetch_resp \<Rightarrow> crawler" where
  "resp_step cfg s i u r =
     (let s1 = s\<lparr>workers := (workers s)[i := WLoop]\<rparr> in
      case fetch_result r of
        None \<Rightarrow> s1
      | Some (html, hrefs) \<Rightarrow>
          if html = [] then s1
          else
            let s2 = (save_page s1 u html)\<lparr>visited := insert u (visited s1)\<rparr> in
            case extract_links (urljoin cfg) u hrefs of
              Inl e \<Rightarrow> s2\<lparr>crawl_error := Some e\<rparr>
            | Inr L \<Rightarrow> s2\<lparr>frontier := frontier s2 \<union> {l \<in> L. l \<notin> visited s2}\<rparr>)"

fun crawl_step :: "crawl_cfg \<Rightarrow> crawler \<Rightarrow> event \<Rightarrow> crawler option" where
  "crawl_step cfg s (Pop i u slack) =
     (if crawl_error s = None \<and> i < length (workers s) \<and> workers s ! i = WLoop \<and> worker_continue cfg s
         \<and> u \<in> frontier s \<and> 0 \<le> slack
      then Some (pop_step cfg s i u slack) else None)"
| "crawl_step cfg s (Resp i r) =
     (if crawl_error s = None \<and> i < length (workers s) then
        (case workers s ! i of WFetch u \<Rightarrow> Some (resp_step cfg s i u r) | _ \<Rightarrow> None)
      else None)"
| "crawl_step cfg s (Exit i) =
     (if crawl_error s = None \<and> i < length (workers s) \<and> workers s ! i = WLoop \<and> \<not> worker_continue cfg s
      then Some (s\<lparr>workers := (workers s)[i := WDone]\<rparr>) else None)"
| "crawl_step cfg s (Tick dt) = (if 0 \<le> dt then Some (s\<lparr>clock := clock s + dt\<rparr>) else None)"

fun crawl_run :: "crawl_cfg \<Rightarrow> crawler \<Rightarrow> event list \<Rightarrow> crawler option" where
  "crawl_run cfg s [] = Some s"
| "crawl_run cfg s (e # es) = (case crawl_step cfg s e of None \<Rightarrow> None | Some s' \<Rightarrow> crawl_run cfg s' es)"

inductive crawl_reach :: "crawl_cfg \<Rightarrow> real \<Rightarrow> string list \<Rightarrow> nat \<Rightarrow> crawler \<Rightarrow> bool" where
  start: "crawl_reach cfg t0 seeds w (crawl_start (crawler_new t0) seeds w)"
| step: "crawl_reach cfg t0 seeds w s \<Longrightarrow> crawl_step cfg s e = Some s' \<Longrightarrow> crawl_reach cfg t0 seeds w s'"

text \<open>The crawl is over when every worker has ended or an exception escaped.\<close>

definition crawl_finished :: "crawler \<Rightarrow> bool" where
  "crawl_finished s \<longleftrightarrow> crawl_error s \<noteq> None \<or> list_all (\<lambda>p. p = WDone) (workers s)"

fun is_fetch :: "wpc \<Rightarrow> bool" where
  "is_fetch (WFetch _) = True"
| "is_fetch _ = False"

definition robots_default_inv :: "crawler \<Rightarrow> bool" where
  "robots_default_inv s \<longleftrightarrow> list_all (\<lambda>(d, r). rules r = [] \<and> crawl_delay r = 1) (robots_reg s)"

text \<open>
  Sample configuration: its \<open>robots.txt\<close> answer disallows everything, which has no
  effect when the event loop is running; \<open>urljoin\<close> is concatenation.
\<close>

definition demo_cfg :: "nat \<Rightarrow> crawl_cfg" where
  "demo_cfg n = \<lparr>limit = n, loop_running = True, robots_response = (\<lambda>_. RobotsHttp 200 ''Disallow: /''),
     urljoin = (\<lambda>b h. Inr (b @ h))\<rparr>"

definition html_page :: "string list \<Rightarrow> fetch_resp" where
  "html_page hrefs = HttpResp 200 ''text/html; charset=utf-8'' ''<html>page</html>'' hrefs"

subsection \<open>Invariants\<close>

text \<open>
  The count invariant: a worker pops only while fewer than \<open>limit\<close> URLs are visited,
  and each worker has at most one fetch in flight, so visited URLs and fetches in
  flight together never exceed \<open>limit + W - 1\<close>. Every visited URL has been saved.
\<close>

text \<open>
  Politeness: in the access log (newest first), a later access with the same registry key
  and network location comes at least the entry's crawl delay after every earlier one.
\<close>

fun spaced :: "(string, robots) pydict \<Rightarrow> (string \<times> string \<times> real) list \<Rightarrow> bool" where
  "spaced reg [] = True"
| "spaced reg ((d, n, t) # older) =
     (list_all (\<lambda>(d', n', t'). d' = d \<and> n' = n \<longrightarrow> t' + real (crawl_delay (reg_lookup reg d)) \<le> t) older
      \<and> spaced reg older)"

text \<open>
  What makes it inductive: every logged access is at most the last access time that the
  registry entry records for its network location.
\<close>

definition polite_inv :: "crawler \<Rightarrow> bool" where
  "polite_inv s \<longleftrightarrow>
     list_all (\<lambda>(d, n, t). d \<in> set (dict_keys (robots_reg s)) \<and>
                          t \<le> dict_get (last_access (reg_lookup (robots_reg s) d)) n 0) (access_log s)
     \<and> spaced (robots_reg s) (access_log s)"

definition bound_inv :: "crawl_cfg \<Rightarrow> nat \<Rightarrow> crawler \<Rightarrow> bool" where
  "bound_inv cfg w s \<longleftrightarrow> length (workers s) = w \<and> finite (visited s) \<and> dom (storage s) = visited s \<and>
     card (visited s) + length (filter is_fetch (workers s)) \<le> limit cfg + w - 1"

subsection \<open>Frame lemmas\<close>

lemma fetch_start_frame:
  "fetch_start cfg s u slack = Inr (s', b) \<Longrightarrow>
   frontier s' = frontier s \<and> visited s' = visited s \<and> storage s' = storage s \<and>
   workers s' = workers s \<and> crawl_error s' = crawl_error s"
  by (auto simp: fetch_start_def Let_def split: sum.splits bool.splits if_splits prod.splits)

lemma pop_step_frame:
  "visited (pop_step cfg s i u slack) = visited s \<and> storage (pop_step cfg s i u slack) = storage s \<and>
   frontier (pop_step cfg s i u slack) = frontier s - {u} \<and>
   (workers (pop_step cfg s i u slack) = workers s \<or> workers (pop_step cfg s i u slack) = (workers s)[i := WFetch u])"
  by (auto simp: pop_step_def Let_def dest!: fetch_start_frame split: sum.splits bool.splits prod.splits)

lemma resp_step_frame:
  "((visited (resp_step cfg s i u r) = visited s \<and> storage (resp_step cfg s i u r) = storage s) \<or>
    (visited (resp_step cfg s i u r) = insert u (visited s) \<and>
     dom (storage (resp_step cfg s i u r)) = insert u (dom (storage s)))) \<and>
   workers (resp_step cfg s i u r) = (workers s)[i := WLoop]"
  by (auto simp: resp_step_def save_page_def Let_def split: option.splits sum.splits prod.splits)

lemma fetch_count_update:
  assumes "i < length ws" "\<not> is_fetch (ws ! i)"
  shows "length (filter is_fetch (ws[i := p])) = length (filter is_fetch ws) + (if is_fetch p then 1 else 0)"
  using length_filter_update [OF assms(1), of is_fetch p] assms(2) by simp

lemma fetch_count_less:
  "i < length ws \<Longrightarrow> \<not> is_fetch (ws ! i) \<Longrightarrow> length (filter is_fetch ws) < length ws"
  by (rule length_filter_less) (auto simp: in_set_conv_nth)

lemma bound_inv_start: "bound_inv cfg w (crawl_start (crawler_new t0) seeds w)"
  by (simp add: bound_inv_def crawl_start_def crawler_new_def)

lemma bound_inv_pop:
  assumes inv: "bound_inv cfg w s" and en: "i < length (workers s)" "workers s ! i = WLoop" "worker_continue cfg s"
  shows "bound_inv cfg w (pop_step cfg s i u slack)"
proof -
  let ?s' = "pop_step cfg s i u slack"
  have less: "length (filter is_fetch (workers s)) < w"
    using fetch_count_less [OF en(1)] en(2) inv by (simp add: bound_inv_def)
  have lim: "card (visited s) < limit cfg" using en(3) by (simp add: worker_continue_def)
  have "length (filter is_fetch (workers ?s')) \<le> length (filter is_fetch (workers s)) + 1"
    using pop_step_frame [of cfg s i u slack] fetch_count_update [OF en(1)] en(2) by auto
  moreover have "length (workers ?s') = w"
    using pop_step_frame [of cfg s i u slack] inv by (auto simp: bound_inv_def)
  ultimately show ?thesis
    using inv pop_step_frame [of cfg s i u slack] less lim by (auto simp: bound_inv_def)
qed

lemma bound_inv_resp:
  assumes inv: "bound_inv cfg w s" and en: "i < length (workers s)" "workers s ! i = WFetch u"
  shows "bound_inv cfg w (resp_step cfg s i u r)"
proof -
  let ?s' = "resp_step cfg s i u r"
  have cnt: "length (filter is_fetch (workers ?s')) + 1 = length (filter is_fetch (workers s))"
    using resp_step_frame [of cfg s i u r] length_filter_update [OF en(1), of is_fetch WLoop] en(2) by simp
  have fin: "finite (visited s)" using inv by (simp add: bound_inv_def)
  have len: "length (workers ?s') = w"
    using resp_step_frame [of cfg s i u r] inv by (simp add: bound_inv_def)
  consider (same) "visited ?s' = visited s" "storage ?s' = storage s"
    | (new) "visited ?s' = insert u (visited s)" "dom (storage ?s') = insert u (dom (storage s))"
    using resp_step_frame [of cfg s i u r] by blast
  then show ?thesis
  proof cases
    case same
    with cnt inv len show ?thesis by (simp add: bound_inv_def)
  next
    case new
    have "card (visited ?s') \<le> card (visited s) + 1"
      using new fin by (simp add: card_insert_if)
    with new cnt inv len show ?thesis by (simp add: bound_inv_def)
  qed
qed

lemma bound_inv_step:
  "bound_inv cfg w s \<Longrightarrow> crawl_step cfg s e = Some s' \<Longrightarrow> bound_inv cfg w s'"
proof (cases e)
  case (Pop i u slack)
  then show "bound_inv cfg w s \<Longrightarrow> crawl_step cfg s e = Some s' \<Longrightarrow> bound_inv cfg w s'"
    by (auto intro: bound_inv_pop split: if_splits)
next
  case (Resp i r)
  then show "bound_inv cfg w s \<Longrightarrow> crawl_step cfg s e = Some s' \<Longrightarrow> bound_inv cfg w s'"
    by (auto intro: bound_inv_resp split: if_splits wpc.splits)
next
  case (Exit i)
  assume inv: "bound_inv cfg w s" and st: "crawl_step cfg s e = Some s'"
  with Exit have en: "i < length (workers s)" "workers s ! i = WLoop" and s': "s' = s\<lparr>workers := (workers s)[i := WDone]\<rparr>"
    by (auto split: if_splits)
  then show ?thesis
    using inv fetch_count_update [OF en(1), of WDone] by (simp add: bound_inv_def)
next
  case (Tick dt)
  assume inv: "bound_inv cfg w s" and st: "crawl_step cfg s e = Some s'"
  with Tick have "s' = s\<lparr>clock := clock s + dt\<rparr>" by (simp split: if_splits)
  with inv show ?thesis by (simp add: bound_inv_def)
qed

lemma crawl_reach_bound_inv: "crawl_reach cfg t0 seeds w s \<Longrightarrow> bound_inv cfg w s"
  by (induction rule: crawl_reach.induct) (auto intro: bound_inv_start bound_inv_step)

subsection \<open>Politeness\<close>

lemma reg_lookup_update [simp]:
  "reg_lookup (AList.update d r reg) d' = (if d' = d then r else reg_lookup reg d')"
  by (simp add: reg_lookup_def)

lemma reg_ensure_keys [simp]: "fst ` set (reg_ensure cfg reg d) = insert d (fst ` set reg)"
  by (auto simp: reg_ensure_def dom_update)

lemma reg_ensure_old:
  "d' \<in> set (dict_keys reg) \<Longrightarrow> reg_lookup (reg_ensure cfg reg d) d' = reg_lookup reg d'"
  by (auto simp: reg_ensure_def)

lemma robots_wait_Inr:
  assumes "robots_wait r u now slack = Inr (r', t)" "0 \<le> slack"
  shows "\<exists>p. urlparse u = Inr p \<and> crawl_delay r' = crawl_delay r \<and> rules r' = rules r \<and>
           last_access r' = AList.update (u_netloc p) t (last_access r) \<and>
           dict_get (last_access r) (u_netloc p) 0 + real (crawl_delay r) \<le> t \<and> now \<le> t"
  using assms by (auto simp: robots_wait_def Let_def split: sum.splits)

lemma spaced_cong:
  "(\<forall>(d, n, t) \<in> set lg. crawl_delay (reg_lookup reg' d) = crawl_delay (reg_lookup reg d)) \<Longrightarrow>
   spaced reg' lg = spaced reg lg"
  by (induction lg rule: spaced.induct) auto

lemma fetch_start_polite:
  assumes fs: "fetch_start cfg s u slack = Inr (s', b)" and inv: "polite_inv s" and sl: "0 \<le> slack"
  shows "polite_inv s'"
proof -
  obtain p where p: "urlparse u = Inr p"
    using fs by (auto simp: fetch_start_def split: sum.splits)
  define d where "d = robots_domain p"
  define reg where "reg = reg_ensure cfg (robots_reg s) d"
  have old: "reg_lookup reg d' = reg_lookup (robots_reg s) d'" if "d' \<in> set (dict_keys (robots_reg s))" for d'
    using that by (simp add: reg_def reg_ensure_old)
  have logk: "\<forall>(d', n, t) \<in> set (access_log s). d' \<in> set (dict_keys (robots_reg s))"
    using inv by (auto simp: polite_inv_def list_all_iff)
  consider (no) "robots_reg s' = reg" "access_log s' = access_log s"
    | (yes) r' t where "robots_wait (reg_lookup reg d) u (clock s) slack = Inr (r', t)"
        "robots_reg s' = AList.update d r' reg" "access_log s' = (d, u_netloc p, t) # access_log s"
    using fs p by (auto simp: fetch_start_def Let_def d_def reg_def split: sum.splits bool.splits prod.splits)
  then show ?thesis
  proof cases
    case no
    have "\<forall>(d', n, t) \<in> set (access_log s). crawl_delay (reg_lookup reg d') = crawl_delay (reg_lookup (robots_reg s) d')"
      using logk old by fastforce
    then have "spaced reg (access_log s) = spaced (robots_reg s) (access_log s)"
      by (rule spaced_cong)
    moreover have "\<forall>(d', n, t) \<in> set (access_log s). d' \<in> fst ` set reg \<and>
        t \<le> dict_get (last_access (reg_lookup reg d')) n 0"
      using inv old by (fastforce simp: polite_inv_def list_all_iff reg_def)
    ultimately show ?thesis
      using no inv by (simp add: polite_inv_def list_all_iff)
  next
    case (yes r' t)
    define r where "r = reg_lookup reg d"
    obtain p' where p': "urlparse u = Inr p'" and dl: "crawl_delay r' = crawl_delay r"
      and la: "last_access r' = AList.update (u_netloc p') t (last_access r)"
      and gap: "dict_get (last_access r) (u_netloc p') 0 + real (crawl_delay r) \<le> t"
      using robots_wait_Inr [OF yes(1) sl] by (auto simp: r_def)
    from p p' have pp: "p' = p" by simp
    have rold: "r = reg_lookup (robots_reg s) d" if "d \<in> set (dict_keys (robots_reg s))"
      using old [OF that] by (simp add: r_def)
    have delays: "\<forall>(d', n, t') \<in> set (access_log s).
        crawl_delay (reg_lookup (AList.update d r' reg) d') = crawl_delay (reg_lookup (robots_reg s) d')"
    proof (intro ballI, clarify)
      fix d' n t' assume "(d', n, t') \<in> set (access_log s)"
      with logk have k: "d' \<in> set (dict_keys (robots_reg s))" by fastforce
      show "crawl_delay (reg_lookup (AList.update d r' reg) d') = crawl_delay (reg_lookup (robots_reg s) d')"
        using old [OF k] dl k rold by (cases "d' = d") auto
    qed
    have sp_old: "spaced (AList.update d r' reg) (access_log s)"
      using inv spaced_cong [OF delays] by (simp add: polite_inv_def)
    have new_gap: "\<forall>(d', n', t') \<in> set (access_log s). d' = d \<and> n' = u_netloc p \<longrightarrow> t' + real (crawl_delay r') \<le> t"
      using inv gap dl rold pp by (fastforce simp: polite_inv_def list_all_iff)
    have p1: "\<forall>(d', n', t') \<in> set (access_log s). d' \<in> insert d (set (dict_keys (robots_reg s))) \<and>
                 t' \<le> dict_get (last_access (reg_lookup (AList.update d r' reg) d')) n' 0"
    proof (intro ballI, clarify)
      fix d' n' t' assume e: "(d', n', t') \<in> set (access_log s)"
      with inv have k: "d' \<in> set (dict_keys (robots_reg s))"
        and le: "t' \<le> dict_get (last_access (reg_lookup (robots_reg s) d')) n' 0"
        by (auto simp: polite_inv_def list_all_iff)
      have "t' \<le> dict_get (last_access (reg_lookup (AList.update d r' reg) d')) n' 0"
      proof (cases "d' = d")
        case True
        with k rold have rr: "r = reg_lookup (robots_reg s) d'" by simp
        have "0 \<le> real (crawl_delay r)" by simp
        with True le rr la gap pp show ?thesis by auto
      next
        case False
        with le old [OF k] show ?thesis by simp
      qed
      with k show "d' \<in> insert d (set (dict_keys (robots_reg s))) \<and>
                   t' \<le> dict_get (last_access (reg_lookup (AList.update d r' reg) d')) n' 0" by simp
    qed
    show ?thesis
      using yes(2,3) sp_old new_gap p1 la pp
      by (auto simp: polite_inv_def list_all_iff reg_def dom_update)
  qed
qed

lemma polite_inv_cong:
  "robots_reg s' = robots_reg s \<Longrightarrow> access_log s' = access_log s \<Longrightarrow> polite_inv s' = polite_inv s"
  by (simp add: polite_inv_def)

lemma resp_step_reg [simp]:
  "robots_reg (resp_step cfg s i u r) = robots_reg s \<and> access_log (resp_step cfg s i u r) = access_log s"
  by (simp add: resp_step_def save_page_def Let_def split: option.splits sum.splits prod.splits)

lemma polite_inv_pop:
  assumes inv: "polite_inv s" and sl: "0 \<le> slack"
  shows "polite_inv (pop_step cfg s i u slack)"
proof -
  let ?s1 = "s\<lparr>frontier := frontier s - {u}\<rparr>"
  have inv1: "polite_inv ?s1" using inv by (simp add: polite_inv_def)
  show ?thesis
  proof (cases "u \<in> visited s")
    case True
    then show ?thesis using inv1 by (simp add: pop_step_def)
  next
    case False
    show ?thesis
    proof (cases "fetch_start cfg ?s1 u slack")
      case (Inl e)
      then show ?thesis using False inv1 by (simp add: pop_step_def polite_inv_def)
    next
      case (Inr sb)
      obtain s2 b where sb: "sb = (s2, b)" by (cases sb)
      have "polite_inv s2"
        using fetch_start_polite [of cfg ?s1 u slack s2 b] Inr sb inv1 sl by simp
      then show ?thesis
        using False Inr sb by (cases b) (simp_all add: pop_step_def polite_inv_def)
    qed
  qed
qed

lemma polite_inv_step:
  assumes inv: "polite_inv s" and st: "crawl_step cfg s e = Some s'"
  shows "polite_inv s'"
proof (cases e)
  case (Pop i u slack)
  with st have "s' = pop_step cfg s i u slack" "0 \<le> slack" by (simp_all split: if_splits)
  with inv show ?thesis by (simp add: polite_inv_pop)
next
  case (Resp i r)
  with st obtain u where "s' = resp_step cfg s i u r"
    by (cases "workers s ! i") (auto split: if_splits)
  with inv show ?thesis using polite_inv_cong [of s' s] by simp
next
  case (Exit i)
  with st have "s' = s\<lparr>workers := (workers s)[i := WDone]\<rparr>" by (simp split: if_splits)
  with inv show ?thesis by (simp add: polite_inv_def)
next
  case (Tick dt)
  with st have "s' = s\<lparr>clock := clock s + dt\<rparr>" by (simp split: if_splits)
  with inv show ?thesis by (simp add: polite_inv_def)
qed

lemma crawl_reach_polite: "crawl_reach cfg t0 seeds w s \<Longrightarrow> polite_inv s"
proof (induction rule: crawl_reach.induct)
  case start
  then show ?case by (simp add: polite_inv_def crawl_start_def crawler_new_def)
next
  case (step s e s')
  then show ?case by (blast intro: polite_inv_step)
qed

subsection \<open>Robots policy and frontier\<close>

lemma set_update_subset: "set (AList.update k v al) \<subseteq> insert (k, v) (set al)"
  by (induction al) auto

lemma list_all_update: "list_all P al \<Longrightarrow> P (k, v) \<Longrightarrow> list_all P (AList.update k v al)"
  using set_update_subset [of k v al] by (auto simp: list_all_iff)

lemma fetch_start_default:
  assumes fs: "fetch_start cfg s u slack = Inr (s', b)" and lr: "loop_running cfg"
    and inv: "robots_default_inv s" and sl: "0 \<le> slack"
  shows "robots_default_inv s'"
proof -
  obtain p where p: "urlparse u = Inr p"
    using fs by (auto simp: fetch_start_def split: sum.splits)
  define d where "d = robots_domain p"
  define reg where "reg = reg_ensure cfg (robots_reg s) d"
  have reg: "list_all (\<lambda>(d, r). rules r = [] \<and> crawl_delay r = 1) reg"
    using inv lr by (auto simp: reg_def reg_ensure_def robots_default_inv_def robots_new_def intro!: list_all_update)
  then have r: "rules (reg_lookup reg d) = [] \<and> crawl_delay (reg_lookup reg d) = 1"
    by (auto simp: reg_lookup_def dict_get_def list_all_iff robots_new_def split: option.splits dest: map_of_SomeD)
  consider (no) "robots_reg s' = reg"
    | (yes) r' t where "robots_wait (reg_lookup reg d) u (clock s) slack = Inr (r', t)" "robots_reg s' = AList.update d r' reg"
    using fs p by (auto simp: fetch_start_def Let_def d_def reg_def split: sum.splits bool.splits prod.splits)
  then show ?thesis
  proof cases
    case no
    with reg show ?thesis by (simp add: robots_default_inv_def)
  next
    case (yes r' t)
    with robots_wait_Inr [OF yes(1) sl] r reg show ?thesis
      by (auto simp: robots_default_inv_def intro: list_all_update)
  qed
qed

lemma robots_default_step:
  assumes inv: "robots_default_inv s" and lr: "loop_running cfg" and st: "crawl_step cfg s e = Some s'"
  shows "robots_default_inv s'"
proof (cases e)
  case (Pop i u slack)
  with st have s': "s' = pop_step cfg s i u slack" and sl: "0 \<le> slack" by (simp_all split: if_splits)
  let ?s1 = "s\<lparr>frontier := frontier s - {u}\<rparr>"
  have inv1: "robots_default_inv ?s1" using inv by (simp add: robots_default_inv_def)
  show ?thesis
  proof (cases "u \<in> visited s \<or> (\<exists>e. fetch_start cfg ?s1 u slack = Inl e)")
    case True
    then show ?thesis using s' inv1 by (auto simp: pop_step_def robots_default_inv_def Let_def)
  next
    case False
    then obtain s2 b where fs: "fetch_start cfg ?s1 u slack = Inr (s2, b)" and nv: "u \<notin> visited s"
      by (metis old.prod.exhaust sumE)
    have "robots_default_inv s2" by (rule fetch_start_default [OF fs lr inv1 sl])
    then show ?thesis using s' fs nv by (cases b) (simp_all add: pop_step_def robots_default_inv_def)
  qed
next
  case (Resp i r)
  with st obtain u where "s' = resp_step cfg s i u r"
    by (cases "workers s ! i") (auto split: if_splits)
  with inv show ?thesis by (simp add: robots_default_inv_def)
next
  case (Exit i)
  with st have "s' = s\<lparr>workers := (workers s)[i := WDone]\<rparr>" by (simp split: if_splits)
  with inv show ?thesis by (simp add: robots_default_inv_def)
next
  case (Tick dt)
  with st have "s' = s\<lparr>clock := clock s + dt\<rparr>" by (simp split: if_splits)
  with inv show ?thesis by (simp add: robots_default_inv_def)
qed

lemma crawl_reach_robots_default:
  "crawl_reach cfg t0 seeds w s \<Longrightarrow> loop_running cfg \<Longrightarrow> robots_default_inv s"
proof (induction rule: crawl_reach.induct)
  case start
  then show ?case by (simp add: robots_default_inv_def crawl_start_def crawler_new_def)
next
  case (step s e s')
  then show ?case by (blast intro: robots_default_step)
qed

text \<open>
  C28. robots.txt is never honoured during a crawl: \<open>RobotsTxt\<close> is constructed inside
  a running event loop, where \<open>asyncio.run\<close> raises \<open>RuntimeError\<close>, which
  \<open>_fetch_robots\<close> swallows. In every reachable state every registry entry has no
  rules and a delay of one second, and \<open>allowed\<close> accepts every URL that parses.
\<close>

theorem crawl_ignores_robots:
  assumes "loop_running cfg" "crawl_reach cfg t0 seeds w s"
  shows "\<forall>(d, r) \<in> set (robots_reg s). rules r = [] \<and> crawl_delay r = 1 \<and>
           (\<forall>u. allowed r u = (case urlparse u of Inl e \<Rightarrow> Inl e | Inr p \<Rightarrow> Inr True))"
  using crawl_reach_robots_default [OF assms(2,1)]
  by (auto simp: robots_default_inv_def list_all_iff allowed_def split: sum.splits)

lemma resp_step_frontier:
  "frontier (resp_step cfg s i u r) - frontier s \<subseteq> - visited (resp_step cfg s i u r)"
  by (auto simp: resp_step_def save_page_def Let_def split: option.splits sum.splits prod.splits)

text \<open>
  C9. A URL that is visited is never put back into the frontier: every step adds to the
  frontier only URLs that are not visited after the step.
\<close>

theorem crawl_step_no_revisit:
  "crawl_step cfg s e = Some s' \<Longrightarrow> (frontier s' - frontier s) \<inter> visited s' = {}"
proof (cases e)
  case (Pop i u slack)
  moreover assume "crawl_step cfg s e = Some s'"
  ultimately have "s' = pop_step cfg s i u slack" by (simp split: if_splits)
  then show ?thesis using pop_step_frame [of cfg s i u slack] by auto
next
  case (Resp i r)
  moreover assume "crawl_step cfg s e = Some s'"
  ultimately obtain u where "s' = resp_step cfg s i u r"
    by (cases "workers s ! i") (auto split: if_splits)
  then show ?thesis using resp_step_frontier [of cfg s i u r] by auto
qed (auto split: if_splits)

lemma crawl_run_reach:
  "crawl_reach cfg t0 seeds w s \<Longrightarrow> crawl_run cfg s es = Some s' \<Longrightarrow> crawl_reach cfg t0 seeds w s'"
proof (induction es arbitrary: s)
  case Nil
  then show ?case by simp
next
  case (Cons e es)
  then show ?case by (auto intro: crawl_reach.step split: option.splits)
qed

lemmas crawl_eval = crawl_start_def crawler_new_def worker_continue_def pop_step_def fetch_start_def
  resp_step_def fetch_result_def save_page_def robots_domain_def allowed_def robots_wait_def robots_new_def
  url_defs pystr Let_def reg_ensure_def reg_lookup_def dict_get_def html_page_def demo_cfg_def numeral_2_eq_2

subsection \<open>Claims on whole crawls\<close>

lemma crawl_reach_start: "crawl_reach cfg t0 seeds w (crawl_start (crawler_new t0) seeds w)"
  by (rule crawl_reach.start)

text \<open>
  C7. The number of visited URLs never exceeds \<open>limit + W - 1\<close> for \<open>W\<close> workers: a
  worker checks the limit before it pops, and each of the others may have one fetch in
  flight.
\<close>

theorem crawl_visited_bound: "crawl_reach cfg t0 seeds w s \<Longrightarrow> card (visited s) \<le> limit cfg + w - 1"
  using crawl_reach_bound_inv [of cfg t0 seeds w s] by (simp add: bound_inv_def)

theorem crawl_visited_bound_witness:
  "\<exists>s. crawl_run (demo_cfg 1) (crawl_start (crawler_new 100) [''http://a.org/x'', ''http://b.org/y''] 2)
     [Pop 0 ''http://a.org/x'' 0, Pop 1 ''http://b.org/y'' 0, Resp 0 (html_page []), Resp 1 (html_page [])] = Some s
     \<and> card (visited s) \<le> limit (demo_cfg 1) + 2 - 1"
proof -
  obtain s where run: "crawl_run (demo_cfg 1) (crawl_start (crawler_new 100) [''http://a.org/x'', ''http://b.org/y''] 2)
     [Pop 0 ''http://a.org/x'' 0, Pop 1 ''http://b.org/y'' 0, Resp 0 (html_page []), Resp 1 (html_page [])] = Some s"
    by (simp add: crawl_eval)
  have "crawl_reach (demo_cfg 1) 100 [''http://a.org/x'', ''http://b.org/y''] 2 s"
    by (rule crawl_run_reach [OF crawl_reach_start run])
  then show ?thesis using run crawl_visited_bound by blast
qed

text \<open>
  C29. The limit can be overshot, unlike what the design asks (\<open>|visited|\<close> never
  exceeds \<open>limit\<close>): with \<open>limit = 1\<close> and two workers, both workers pop before
  either fetch completes and two URLs end up visited. The bound above is reached.
\<close>

theorem crawl_limit_overshoot:
  "\<exists>s. crawl_reach (demo_cfg 1) 100 [''http://a.org/x'', ''http://b.org/y''] 2 s \<and>
       card (visited s) = 2 \<and> limit (demo_cfg 1) = 1"
proof -
  obtain s where run: "crawl_run (demo_cfg 1) (crawl_start (crawler_new 100) [''http://a.org/x'', ''http://b.org/y''] 2)
     [Pop 0 ''http://a.org/x'' 0, Pop 1 ''http://b.org/y'' 0, Resp 0 (html_page []), Resp 1 (html_page [])] = Some s"
    and card: "card (visited s) = 2"
    by (auto simp: crawl_eval)
  have "crawl_reach (demo_cfg 1) 100 [''http://a.org/x'', ''http://b.org/y''] 2 s"
    by (rule crawl_run_reach [OF crawl_reach_start run])
  with card show ?thesis by (auto simp: demo_cfg_def)
qed

text \<open>
  C8. Politeness: in every reachable state, two accesses recorded for the same registry
  key and network location are separated by at least the entry's crawl delay. \<open>wait\<close>
  sleeps inside the worker's uninterrupted step, so no other worker can read the same
  \<open>last_access\<close> in between.
\<close>

theorem crawl_politeness: "crawl_reach cfg t0 seeds w s \<Longrightarrow> spaced (robots_reg s) (access_log s)"
  using crawl_reach_polite by (simp add: polite_inv_def)

theorem crawl_politeness_witness:
  "\<exists>s. crawl_run (demo_cfg 5) (crawl_start (crawler_new 100) [''http://a.org/x'', ''http://a.org/y''] 1)
     [Pop 0 ''http://a.org/x'' 0, Resp 0 (html_page []), Pop 0 ''http://a.org/y'' 0] = Some s \<and>
     access_log s = [(''http://a.org'', ''a.org'', 101), (''http://a.org'', ''a.org'', 100)] \<and>
     spaced (robots_reg s) (access_log s)"
proof -
  obtain s where run: "crawl_run (demo_cfg 5) (crawl_start (crawler_new 100) [''http://a.org/x'', ''http://a.org/y''] 1)
     [Pop 0 ''http://a.org/x'' 0, Resp 0 (html_page []), Pop 0 ''http://a.org/y'' 0] = Some s"
    and lg: "access_log s = [(''http://a.org'', ''a.org'', 101), (''http://a.org'', ''a.org'', 100)]"
    by (auto simp: crawl_eval)
  have "crawl_reach (demo_cfg 5) 100 [''http://a.org/x'', ''http://a.org/y''] 1 s"
    by (rule crawl_run_reach [OF crawl_reach_start run])
  then have "spaced (robots_reg s) (access_log s)"
    by (rule crawl_politeness)
  with run lg show ?thesis by blast
qed

text \<open>
  C31. Politeness is per \<open>scheme://netloc\<close>, not per host: \<open>http://a.org\<close> and
  \<open>https://a.org\<close> get two registry entries with separate \<open>last_access\<close>, and two
  workers request the host \<open>a.org\<close> at the same instant.
\<close>

theorem crawl_politeness_per_scheme:
  "\<exists>s. crawl_reach (demo_cfg 5) 100 [''http://a.org/x'', ''https://a.org/y''] 2 s \<and>
       access_log s = [(''https://a.org'', ''a.org'', 100), (''http://a.org'', ''a.org'', 100)] \<and>
       workers s = [WFetch ''http://a.org/x'', WFetch ''https://a.org/y'']"
proof -
  obtain s where run: "crawl_run (demo_cfg 5) (crawl_start (crawler_new 100) [''http://a.org/x'', ''https://a.org/y''] 2)
     [Pop 0 ''http://a.org/x'' 0, Pop 1 ''https://a.org/y'' 0] = Some s"
    and lg: "access_log s = [(''https://a.org'', ''a.org'', 100), (''http://a.org'', ''a.org'', 100)]"
    and ws: "workers s = [WFetch ''http://a.org/x'', WFetch ''https://a.org/y'']"
    by (auto simp: crawl_eval)
  have "crawl_reach (demo_cfg 5) 100 [''http://a.org/x'', ''https://a.org/y''] 2 s"
    by (rule crawl_run_reach [OF crawl_reach_start run])
  with lg ws show ?thesis by blast
qed

theorem crawl_ignores_robots_witness:
  "\<exists>s. crawl_run (demo_cfg 1) (crawl_start (crawler_new 100) [''http://a.org/x'', ''http://b.org/y''] 2)
     [Pop 0 ''http://a.org/x'' 0, Pop 1 ''http://b.org/y'' 0] = Some s \<and> length (robots_reg s) = 2 \<and>
     (\<forall>(d, r) \<in> set (robots_reg s). rules r = [] \<and> crawl_delay r = 1 \<and>
        (\<forall>u. allowed r u = (case urlparse u of Inl e \<Rightarrow> Inl e | Inr p \<Rightarrow> Inr True)))"
proof -
  obtain s where run: "crawl_run (demo_cfg 1) (crawl_start (crawler_new 100) [''http://a.org/x'', ''http://b.org/y''] 2)
     [Pop 0 ''http://a.org/x'' 0, Pop 1 ''http://b.org/y'' 0] = Some s" and len: "length (robots_reg s) = 2"
    by (auto simp: crawl_eval)
  have lr: "loop_running (demo_cfg 1)" by (simp add: demo_cfg_def)
  have "crawl_reach (demo_cfg 1) 100 [''http://a.org/x'', ''http://b.org/y''] 2 s"
    by (rule crawl_run_reach [OF crawl_reach_start run])
  with run len crawl_ignores_robots [OF lr] show ?thesis by blast
qed

theorem crawl_step_no_revisit_witness:
  "\<exists>s'. crawl_step (demo_cfg 5) (crawl_start (crawler_new 100) [''http://a.org/''] 1) (Pop 0 ''http://a.org/'' 0) = Some s' \<and>
     (frontier s' - frontier (crawl_start (crawler_new 100) [''http://a.org/''] 1)) \<inter> visited s' = {}"
proof -
  obtain s' where st: "crawl_step (demo_cfg 5) (crawl_start (crawler_new 100) [''http://a.org/''] 1) (Pop 0 ''http://a.org/'' 0) = Some s'"
    by (simp add: crawl_eval)
  then have "(frontier s' - frontier (crawl_start (crawler_new 100) [''http://a.org/''] 1)) \<inter> visited s' = {}"
    by (rule crawl_step_no_revisit)
  with st show ?thesis by blast
qed

text \<open>
  C30. The frontier and the visited set can overlap, and two workers can fetch the same URL,
  unlike what the design asks: a URL being fetched is not yet visited, so a link to it
  found by another worker puts it back into the frontier, from which it is popped again.
\<close>

theorem crawl_frontier_overlap:
  "(\<exists>s. crawl_reach (demo_cfg 10) 100 [''http://a.org/'', ''http://b.org/''] 2 s \<and>
        ''http://a.org/'' \<in> frontier s \<inter> visited s) \<and>
   (\<exists>s. crawl_reach (demo_cfg 10) 100 [''http://a.org/'', ''http://b.org/''] 2 s \<and>
        workers s = [WFetch ''http://a.org/'', WFetch ''http://a.org/''])"
proof
  obtain s where run: "crawl_run (demo_cfg 10) (crawl_start (crawler_new 100) [''http://a.org/'', ''http://b.org/''] 2)
     [Pop 0 ''http://a.org/'' 0, Pop 1 ''http://b.org/'' 0, Resp 1 (html_page [''http://a.org/'']), Resp 0 (html_page [])] = Some s"
    and ov: "''http://a.org/'' \<in> frontier s \<inter> visited s"
    by (auto simp: crawl_eval)
  show "\<exists>s. crawl_reach (demo_cfg 10) 100 [''http://a.org/'', ''http://b.org/''] 2 s \<and>
        ''http://a.org/'' \<in> frontier s \<inter> visited s"
    using crawl_run_reach [OF crawl_reach_start run] ov by blast
next
  obtain s where run: "crawl_run (demo_cfg 10) (crawl_start (crawler_new 100) [''http://a.org/'', ''http://b.org/''] 2)
     [Pop 0 ''http://a.org/'' 0, Pop 1 ''http://b.org/'' 0, Resp 1 (html_page [''http://a.org/'']), Pop 1 ''http://a.org/'' 0] = Some s"
    and ws: "workers s = [WFetch ''http://a.org/'', WFetch ''http://a.org/'']"
    by (auto simp: crawl_eval)
  show "\<exists>s. crawl_reach (demo_cfg 10) 100 [''http://a.org/'', ''http://b.org/''] 2 s \<and>
        workers s = [WFetch ''http://a.org/'', WFetch ''http://a.org/'']"
    using crawl_run_reach [OF crawl_reach_start run] ws by blast
qed

text \<open>
  C32. One malformed link aborts the whole crawl: \<open>extract_links\<close> keeps any
  \<open>href\<close> that starts with \<open>http\<close>, and when it is popped, \<open>urlparse\<close> in
  \<open>fetch\<close> raises \<open>ValueError\<close> outside the \<open>try\<close>; the exception ends the
  worker and \<open>asyncio.gather\<close>.
\<close>

theorem crawl_bad_link_aborts:
  "\<exists>s. crawl_reach (demo_cfg 10) 100 [''http://a.org/''] 1 s \<and>
       crawl_error s = Some ValueError \<and> crawl_finished s \<and> visited s = {''http://a.org/''}"
proof -
  obtain s where run: "crawl_run (demo_cfg 10) (crawl_start (crawler_new 100) [''http://a.org/''] 1)
     [Pop 0 ''http://a.org/'' 0, Resp 0 (html_page [''http://[bad'']), Pop 0 ''http://[bad'' 0] = Some s"
    and err: "crawl_error s = Some ValueError" and vis: "visited s = {''http://a.org/''}"
    by (auto simp: crawl_eval)
  have "crawl_reach (demo_cfg 10) 100 [''http://a.org/''] 1 s"
    by (rule crawl_run_reach [OF crawl_reach_start run])
  with err vis show ?thesis by (auto simp: crawl_finished_def)
qed

text \<open>
  C34. Every visited URL has been saved and every saved URL is visited (\<open>save\<close> and
  \<open>visited.add\<close> happen in the same uninterrupted step), and the visited set is finite.
\<close>

theorem crawl_saved_iff_visited:
  "crawl_reach cfg t0 seeds w s \<Longrightarrow> dom (storage s) = visited s \<and> finite (visited s)"
  using crawl_reach_bound_inv [of cfg t0 seeds w s] by (simp add: bound_inv_def)

theorem crawl_saved_iff_visited_witness:
  "\<exists>s. crawl_run (demo_cfg 5) (crawl_start (crawler_new 100) [''http://a.org/x'', ''http://a.org/y''] 1)
     [Pop 0 ''http://a.org/x'' 0, Resp 0 (html_page [])] = Some s \<and>
     dom (storage s) = visited s \<and> finite (visited s) \<and> visited s = {''http://a.org/x''}"
proof -
  obtain s where run: "crawl_run (demo_cfg 5) (crawl_start (crawler_new 100) [''http://a.org/x'', ''http://a.org/y''] 1)
     [Pop 0 ''http://a.org/x'' 0, Resp 0 (html_page [])] = Some s" and vis: "visited s = {''http://a.org/x''}"
    by (auto simp: crawl_eval)
  have "crawl_reach (demo_cfg 5) 100 [''http://a.org/x'', ''http://a.org/y''] 1 s"
    by (rule crawl_run_reach [OF crawl_reach_start run])
  then have "dom (storage s) = visited s \<and> finite (visited s)"
    by (rule crawl_saved_iff_visited)
  with run vis show ?thesis by blast
qed

end
