(* ===== verification/Crawl_Liveness.thy ===== *)
theory Crawl_Liveness
  imports Crawler
begin

text \<open>
  Liveness of the crawl of \<^verbatim>\<open>src/src/crawler.py\<close>: from every reachable state the workers
  can bring the crawl to its end, whatever the network answered so far. The finishing run
  answers every request in flight with a network failure, lets each idle worker pop the
  frontier while it may continue, and lets it leave the loop once it may not. Each of these
  events lowers \<open>finish_bound\<close>: twice the size of the frontier plus two for a fetch in
  flight and one for an idle worker, so the run has at most that many events. The bound
  needs the frontier to be finite, an invariant of the crawl (\<open>extract_links\<close> returns a
  finite set).
\<close>

fun pending_work :: "wpc \<Rightarrow> nat" where
  "pending_work (WFetch u) = 2"
| "pending_work WLoop = 1"
| "pending_work WDone = 0"

definition finish_bound :: "crawler \<Rightarrow> nat" where
  "finish_bound s = 2 * card (frontier s) + sum_list (map pending_work (workers s))"

text \<open>Termination: a step of a worker (every event but the passing of time) either lowers
  \<open>success_budget\<close>, which bounds the successful responses still possible, or keeps it and
  lowers \<open>finish_bound\<close>. A new page lowers \<open>limit + W - |visited|\<close>; a page fetched by
  several workers at once is paid for by \<open>fetch_of\<close>, the fetches in flight of visited URLs.\<close>

fun fetch_of :: "string set \<Rightarrow> wpc \<Rightarrow> bool" where
  "fetch_of V (WFetch u) = (u \<in> V)"
| "fetch_of V WLoop = False"
| "fetch_of V WDone = False"

definition success_budget :: "nat \<Rightarrow> crawl_cfg \<Rightarrow> crawler \<Rightarrow> nat" where
  "success_budget w cfg s =
     w * (limit cfg + w - card (visited s)) + length (filter (fetch_of (visited s)) (workers s))"

fun worker_event :: "event \<Rightarrow> bool" where
  "worker_event (Tick dt) = False"
| "worker_event (Pop i u slack) = True"
| "worker_event (Resp i r) = True"
| "worker_event (Exit i) = True"

subsection \<open>The frontier stays finite\<close>

lemma extract_links_finite: "extract_links join base hs = Inr L \<Longrightarrow> finite L"
  by (induction join base hs arbitrary: L rule: extract_links.induct) (auto split: if_splits sum.splits)

lemma resp_step_finite: "finite (frontier s) \<Longrightarrow> finite (frontier (resp_step cfg s i u r))"
  by (auto simp: resp_step_def save_page_def Let_def dest: extract_links_finite
      split: option.splits sum.splits prod.splits)

lemma crawl_step_finite: "crawl_step cfg s e = Some s' \<Longrightarrow> finite (frontier s) \<Longrightarrow> finite (frontier s')"
  by (cases e) (auto simp: pop_step_frame resp_step_finite split: if_splits wpc.splits)

lemma crawl_reach_finite: "crawl_reach cfg t0 seeds w s \<Longrightarrow> finite (frontier s)"
  by (induction rule: crawl_reach.induct) (auto simp: crawl_start_def crawler_new_def dest: crawl_step_finite)

subsection \<open>Each finishing event lowers the bound\<close>

lemma sum_list_map_update:
  "i < length xs \<Longrightarrow> sum_list (map f (xs[i := x])) + f (xs ! i) = sum_list (map f xs) + (f x :: nat)"
proof (induction xs arbitrary: i)
  case (Cons y ys)
  then show ?case by (cases i) auto
qed simp

lemma finish_bound_resp:
  assumes "i < length (workers s)" "workers s ! i = WFetch u"
  shows "finish_bound (resp_step cfg s i u NetFail) < finish_bound s"
  using sum_list_map_update [OF assms(1), of pending_work WLoop] assms(2)
  by (simp add: finish_bound_def resp_step_def fetch_result_def)

lemma finish_bound_pop:
  assumes "i < length (workers s)" "workers s ! i = WLoop" "u \<in> frontier s" "finite (frontier s)"
  shows "finish_bound (pop_step cfg s i u slack) < finish_bound s"
proof -
  have c: "card (frontier s - {u}) + 1 = card (frontier s)"
    using assms(3,4) card_Suc_Diff1 by fastforce
  have "sum_list (map pending_work ((workers s)[i := WFetch u])) + 1 = sum_list (map pending_work (workers s)) + 2"
    using sum_list_map_update [OF assms(1), of pending_work "WFetch u"] assms(2) by simp
  then show ?thesis using pop_step_frame [of cfg s i u slack] c by (auto simp: finish_bound_def)
qed

lemma finish_bound_exit:
  assumes "i < length (workers s)" "workers s ! i = WLoop"
  shows "finish_bound (s\<lparr>workers := (workers s)[i := WDone]\<rparr>) < finish_bound s"
  using sum_list_map_update [OF assms(1), of pending_work WDone] assms(2)
  by (simp add: finish_bound_def)

subsection \<open>A finishing run\<close>

lemma crawl_run_Cons_Some:
  "crawl_step cfg s e = Some s1 \<Longrightarrow> crawl_run cfg s1 es = Some s' \<Longrightarrow> crawl_run cfg s (e # es) = Some s'"
  by simp

lemma crawl_finish_from:
  assumes "finite (frontier s)"
  shows "\<exists>es s'. crawl_run cfg s es = Some s' \<and> crawl_finished s' \<and> length es \<le> finish_bound s"
  using assms
proof (induction "finish_bound s" arbitrary: s rule: less_induct)
  case less
  let ?ws = "workers s"
  have step: "\<exists>es s'. crawl_run cfg s es = Some s' \<and> crawl_finished s' \<and> length es \<le> finish_bound s"
    if e: "crawl_step cfg s e = Some s1" and lt: "finish_bound s1 < finish_bound s" and fin: "finite (frontier s1)"
    for e s1
  proof -
    obtain es s' where "crawl_run cfg s1 es = Some s'" "crawl_finished s'" "length es \<le> finish_bound s1"
      using less.hyps [OF lt fin] by blast
    then show ?thesis using crawl_run_Cons_Some [OF e] lt by (intro exI [of _ "e # es"]) auto
  qed
  show ?case
  proof (cases "crawl_error s = None")
    case False
    then show ?thesis by (intro exI [of _ "[]"]) (simp add: crawl_finished_def)
  next
    case ok: True
    show ?thesis
    proof (cases "\<exists>i < length ?ws. is_fetch (?ws ! i)")
      case True
      then obtain i u where i: "i < length ?ws" "?ws ! i = WFetch u"
        by (metis is_fetch.elims(2))
      have "crawl_step cfg s (Resp i NetFail) = Some (resp_step cfg s i u NetFail)" using ok i by simp
      then show ?thesis
        using step finish_bound_resp [OF i] resp_step_finite [OF less.prems] by blast
    next
      case nf: False
      show ?thesis
      proof (cases "\<exists>i < length ?ws. ?ws ! i = WLoop")
        case True
        then obtain i where i: "i < length ?ws" "?ws ! i = WLoop" by blast
        show ?thesis
        proof (cases "worker_continue cfg s")
          case True
          then obtain u where u: "u \<in> frontier s" by (auto simp: worker_continue_def)
          let ?s1 = "pop_step cfg s i u 0"
          have e: "crawl_step cfg s (Pop i u 0) = Some ?s1" using ok i True u by simp
          show ?thesis
          proof (cases "crawl_error ?s1 = None")
            case False
            have "finish_bound s \<ge> 1" using u less.prems card_gt_0_iff [of "frontier s"]
              by (auto simp: finish_bound_def)
            then show ?thesis using e False
              by (intro exI [of _ "[Pop i u 0]"] exI [of _ ?s1]) (simp add: crawl_finished_def)
          next
            case True
            have "finite (frontier ?s1)" using pop_step_frame [of cfg s i u 0] less.prems by simp
            then show ?thesis using step [OF e finish_bound_pop [OF i u less.prems]] by blast
          qed
        next
          case False
          have e: "crawl_step cfg s (Exit i) = Some (s\<lparr>workers := ?ws[i := WDone]\<rparr>)" using ok i False by simp
          then show ?thesis using step [OF e finish_bound_exit [OF i]] less.prems by simp
        qed
      next
        case False
        have "?ws ! n = WDone" if "n < length ?ws" for n
          using False nf that by (cases "?ws ! n") auto
        then have "list_all (\<lambda>p. p = WDone) ?ws" by (simp add: list_all_length)
        then show ?thesis by (intro exI [of _ "[]"]) (simp add: crawl_finished_def)
      qed
    qed
  qed
qed

lemma sum_pending_work: "sum_list (map pending_work ws) \<le> 2 * length ws"
proof (induction ws)
  case (Cons p ws)
  then show ?case by (cases p) auto
qed simp

subsection \<open>Each worker step lowers the termination measure\<close>

lemma pop_step_workers:
  "workers (pop_step cfg s i u slack) = workers s \<or>
   (workers (pop_step cfg s i u slack) = (workers s)[i := WFetch u] \<and> u \<notin> visited s)"
  by (auto simp: pop_step_def Let_def dest!: fetch_start_frame split: sum.splits bool.splits prod.splits)

lemma resp_step_cases:
  "resp_step cfg s i u r = s\<lparr>workers := (workers s)[i := WLoop]\<rparr> \<or>
   visited (resp_step cfg s i u r) = insert u (visited s)"
  by (auto simp: resp_step_def save_page_def Let_def split: option.splits sum.splits prod.splits)

lemma length_filter_disj:
  "(\<And>x. P x \<Longrightarrow> Q x \<or> R x) \<Longrightarrow> length (filter P xs) \<le> length (filter Q xs) + length (filter R xs)"
  by (induction xs) auto

lemma fetch_of_resp:
  assumes "i < length ws" "ws ! i = WFetch u"
  shows "length (filter (fetch_of V) (ws[i := WLoop])) + (if u \<in> V then 1 else 0) = length (filter (fetch_of V) ws)"
  using length_filter_update [OF assms(1), of "fetch_of V" WLoop] assms(2) by simp

lemma resp_step_budget:
  assumes inv: "bound_inv cfg w s" and i: "i < length (workers s)" "workers s ! i = WFetch u"
  shows "success_budget w cfg (resp_step cfg s i u r) < success_budget w cfg s \<or>
         (success_budget w cfg (resp_step cfg s i u r) = success_budget w cfg s \<and>
          finish_bound (resp_step cfg s i u r) < finish_bound s)"
proof -
  let ?s' = "resp_step cfg s i u r" and ?ws = "workers s" and ?V = "visited s"
  let ?ws' = "?ws[i := WLoop]"
  have ws': "workers ?s' = ?ws'" using resp_step_frame [of cfg s i u r] by simp
  have w: "length ?ws = w" and fin: "finite ?V"
    and bnd: "card ?V + length (filter is_fetch ?ws) \<le> limit cfg + w - 1" using inv by (auto simp: bound_inv_def)
  have vf: "length (filter (fetch_of ?V) ?ws') + (if u \<in> ?V then 1 else 0) = length (filter (fetch_of ?V) ?ws)"
    by (rule fetch_of_resp [OF i])
  show ?thesis
  proof (cases "u \<in> ?V")
    case True
    have "visited ?s' = ?V" using resp_step_frame [of cfg s i u r] True by auto
    then show ?thesis using vf True ws' by (simp add: success_budget_def)
  next
    case new: False
    consider (same) "?s' = s\<lparr>workers := ?ws'\<rparr>" | (added) "visited ?s' = insert u ?V"
      using resp_step_cases [of cfg s i u r] by blast
    then show ?thesis
    proof cases
      case same
      have "sum_list (map pending_work ?ws') + 1 = sum_list (map pending_work ?ws)"
        using sum_list_map_update [OF i(1), of pending_work WLoop] i(2) by simp
      then show ?thesis using same vf new by (simp add: success_budget_def finish_bound_def)
    next
      case added
      have f1: "length (filter is_fetch ?ws') + 1 = length (filter is_fetch ?ws)"
        using length_filter_update [OF i(1), of is_fetch WLoop] i(2) by simp
      have "length (filter is_fetch ?ws) \<le> w" using w length_filter_le [of is_fetch ?ws] by simp
      then have fw: "length (filter is_fetch ?ws') + 1 \<le> w" using f1 by simp
      have "length (filter (fetch_of (insert u ?V)) ?ws') \<le>
              length (filter (fetch_of ?V) ?ws') + length (filter is_fetch ?ws')"
      proof (rule length_filter_disj)
        fix p assume "fetch_of (insert u ?V) p"
        then show "fetch_of ?V p \<or> is_fetch p" by (cases p) auto
      qed
      then have vf': "length (filter (fetch_of (insert u ?V)) ?ws') + 1 \<le> length (filter (fetch_of ?V) ?ws) + w"
        using vf new fw by simp
      have c: "card (insert u ?V) = card ?V + 1" using fin new by simp
      have "card ?V + 1 \<le> limit cfg + w - 1" using bnd f1 by simp
      then have "limit cfg + w - card ?V = Suc (limit cfg + w - card (insert u ?V))" using c by simp
      then have "w * (limit cfg + w - card ?V) = w * (limit cfg + w - card (insert u ?V)) + w" by simp
      then show ?thesis using added ws' vf' by (simp add: success_budget_def)
    qed
  qed
qed

lemma crawl_step_decreases:
  assumes inv: "bound_inv cfg w s" and fin: "finite (frontier s)"
    and st: "crawl_step cfg s e = Some s'" and we: "worker_event e"
  shows "success_budget w cfg s' < success_budget w cfg s \<or>
         (success_budget w cfg s' = success_budget w cfg s \<and> finish_bound s' < finish_bound s)"
proof (cases e)
  case (Pop i u slack)
  then have g: "i < length (workers s)" "workers s ! i = WLoop" "u \<in> frontier s"
    and s': "s' = pop_step cfg s i u slack" using st by (auto split: if_splits)
  have "length (filter (fetch_of (visited s)) (workers s')) = length (filter (fetch_of (visited s)) (workers s))"
    using pop_step_workers [of cfg s i u slack] length_filter_update [OF g(1), of "fetch_of (visited s)" "WFetch u"] g(2)
    unfolding s' by auto
  moreover have "visited s' = visited s" using pop_step_frame [of cfg s i u slack] s' by simp
  ultimately show ?thesis using finish_bound_pop [OF g(1,2,3) fin, of cfg slack] s' by (simp add: success_budget_def)
next
  case (Resp i r)
  then obtain u where g: "i < length (workers s)" "workers s ! i = WFetch u" and s': "s' = resp_step cfg s i u r"
    using st by (auto split: if_splits wpc.splits)
  show ?thesis unfolding s' by (rule resp_step_budget [OF inv g])
next
  case (Exit i)
  then have g: "i < length (workers s)" "workers s ! i = WLoop"
    and s': "s' = s\<lparr>workers := (workers s)[i := WDone]\<rparr>" using st by (auto split: if_splits)
  have "length (filter (fetch_of (visited s)) ((workers s)[i := WDone])) = length (filter (fetch_of (visited s)) (workers s))"
    using length_filter_update [OF g(1), of "fetch_of (visited s)" WDone] g(2) by simp
  then show ?thesis using finish_bound_exit [OF g] s' by (simp add: success_budget_def)
next
  case (Tick dt)
  then show ?thesis using we by simp
qed

subsection \<open>Properties\<close>

text \<open>
  C10. Liveness of the crawl: from every reachable state some continuation ends the crawl
  (every worker has left its loop, or an exception escaped), within at most twice the size
  of the frontier plus twice the number of workers events. Whatever the network and the
  scheduler did so far, the crawl is never stuck in a state it cannot leave: answering the
  requests in flight with failures, popping the remaining frontier and exiting the loops
  always ends it.
\<close>

theorem crawl_can_finish:
  assumes "crawl_reach cfg t0 seeds w s"
  shows "\<exists>es s'. crawl_run cfg s es = Some s' \<and> crawl_finished s' \<and>
           length es \<le> 2 * card (frontier s) + 2 * length (workers s)"
proof -
  obtain es s' where "crawl_run cfg s es = Some s'" "crawl_finished s'" "length es \<le> finish_bound s"
    using crawl_finish_from [OF crawl_reach_finite [OF assms]] by blast
  moreover have "finish_bound s \<le> 2 * card (frontier s) + 2 * length (workers s)"
    using sum_pending_work [of "workers s"] by (simp add: finish_bound_def)
  ultimately show ?thesis by (intro exI conjI) auto
qed

theorem crawl_can_finish_witness:
  "\<exists>es s'. crawl_run (demo_cfg 1) (crawl_start (crawler_new 0) [''http://a/''] 1) es = Some s' \<and>
     crawl_finished s' \<and> length es \<le> 4"
  using crawl_can_finish [OF crawl_reach.start, of "demo_cfg 1" 0 "[''http://a/'']" 1]
  by (simp add: crawl_start_def crawler_new_def)

text \<open>
  C11. Termination of the crawl: there is no infinite run of worker steps. Every sequence of
  pops, responses and exits from a reachable state is finite, whatever the network answers
  and however many links a page holds; only the passing of time can go on forever.
\<close>

theorem crawl_terminates:
  "wf {(s', s). crawl_reach cfg t0 seeds w s \<and> (\<exists>e. worker_event e \<and> crawl_step cfg s e = Some s')}"
proof (rule wf_subset [OF wf_inv_image [OF wf_lex_prod [OF wf_less_than wf_less_than]]])
  show "{(s', s). crawl_reach cfg t0 seeds w s \<and> (\<exists>e. worker_event e \<and> crawl_step cfg s e = Some s')} \<subseteq>
        inv_image (less_than <*lex*> less_than) (\<lambda>s. (success_budget w cfg s, finish_bound s))"
  proof clarify
    fix s' s e assume "crawl_reach cfg t0 seeds w s" "worker_event e" "crawl_step cfg s e = Some s'"
    then show "(s', s) \<in> inv_image (less_than <*lex*> less_than) (\<lambda>s. (success_budget w cfg s, finish_bound s))"
      using crawl_step_decreases [OF crawl_reach_bound_inv crawl_reach_finite] by fastforce
  qed
qed

end
