(* ===== verification/Indexer.thy ===== *)
theory Indexer
  imports Prelude
begin

text \<open>
  The inverted index of \<^verbatim>\<open>src/src/indexer.py\<close>. A parsed document is the JSON
  dictionary written by the parser (\<open>pdoc\<close>; its \<open>metadata\<close> entry is never read
  downstream and is left out). \<open>InvertedIndex\<close> is the record \<open>inverted_index\<close>:
  its five attributes are Python dicts (\<open>index\<close> a \<open>defaultdict(list)\<close>,
  \<open>term_doc_freq\<close> a \<open>Counter\<close>), modelled as association lists in insertion
  order. \<open>add_document\<close> is modelled statement by statement; \<open>Indexer.build\<close>
  folds it over the directory listing. The lemmas show that the per-document position
  lists are exactly the occurrence indices of each token, and that an index built from
  documents with distinct ids refines an abstract index computed directly from the
  document list (postings, document frequencies, document count, document table).
\<close>

type_synonym docid = string

text \<open>A parsed document as \<open>json.load\<close> returns it; its title is \<open>None\<close> (JSON
  \<open>null\<close>) when \<open>soup.title.string\<close> was \<open>None\<close>.\<close>

record pdoc =
  url :: string
  title :: "string option"
  headings :: "string list"
  body :: string
  tokens :: "string list"

record doc_stat =
  st_length :: nat
  st_title :: "string option"
  st_url :: string

type_synonym posting = "docid \<times> nat list"

record inverted_index =
  index :: "(string, posting list) pydict"
  doc_stats :: "(docid, doc_stat) pydict"
  term_doc_freq :: "(string, nat) pydict"
  doc_table :: "(docid, pdoc) pydict"
  N :: nat

definition empty_index :: inverted_index where
  "empty_index = \<lparr>index = [], doc_stats = [], term_doc_freq = [], doc_table = [], N = 0\<rparr>"

subsection \<open>\<open>add_document\<close>\<close>

text \<open>
  \<open>for pos, token in enumerate(tokens): positions[token].append(pos)\<close>, with the
  position counter \<open>i\<close> carried along.
\<close>

fun positions_acc :: "(string, nat list) pydict \<Rightarrow> nat \<Rightarrow> string list \<Rightarrow> (string, nat list) pydict" where
  "positions_acc P i [] = P"
| "positions_acc P i (t # ts) = positions_acc (AList.update t (dict_get P t [] @ [i]) P) (Suc i) ts"

definition token_positions :: "string list \<Rightarrow> (string, nat list) pydict" where
  "token_positions ts = positions_acc [] 0 ts"

text \<open>
  One round of \<open>for token, pos_list in positions.items()\<close>: append the posting
  and count the document once for the token.
\<close>

definition add_posting :: "docid \<Rightarrow> inverted_index \<Rightarrow> string \<times> nat list \<Rightarrow> inverted_index" where
  "add_posting d idx tp = (case tp of (t, ps) \<Rightarrow>
     idx\<lparr>index := AList.update t (dict_get (index idx) t [] @ [(d, ps)]) (index idx),
         term_doc_freq := AList.update t (dict_get (term_doc_freq idx) t 0 + 1) (term_doc_freq idx)\<rparr>)"

definition add_document :: "docid \<Rightarrow> pdoc \<Rightarrow> inverted_index \<Rightarrow> inverted_index" where
  "add_document d doc idx =
     (let ts = tokens doc;
          idx1 = idx\<lparr>doc_stats := AList.update d
                        \<lparr>st_length = length ts, st_title = title doc, st_url = url doc\<rparr> (doc_stats idx),
                     doc_table := AList.update d doc (doc_table idx)\<rparr>;
          idx2 = foldl (add_posting d) idx1 (token_positions ts)
      in idx2\<lparr>N := N idx2 + 1\<rparr>)"

subsection \<open>Abstract index\<close>

text \<open>
  What a list of documents determines: the occurrence indices of a term in a token list,
  the postings of a term (one per document that contains it, in document order) and
  its document frequency.
\<close>

definition occurrences :: "'a list \<Rightarrow> 'a \<Rightarrow> nat list" where
  "occurrences ts t = filter (\<lambda>i. ts ! i = t) [0..<length ts]"

definition doc_postings :: "string \<Rightarrow> docid \<times> pdoc \<Rightarrow> posting list" where
  "doc_postings t dd = (case dd of (d, doc) \<Rightarrow>
     if t \<in> set (tokens doc) then [(d, occurrences (tokens doc) t)] else [])"

definition spec_postings :: "(docid \<times> pdoc) list \<Rightarrow> string \<Rightarrow> posting list" where
  "spec_postings docs t = concat (map (doc_postings t) docs)"

definition doc_freq :: "(docid \<times> pdoc) list \<Rightarrow> string \<Rightarrow> nat" where
  "doc_freq docs t = length (filter (\<lambda>dd. t \<in> set (tokens (snd dd))) docs)"

definition index_terms :: "inverted_index \<Rightarrow> string list" where
  "index_terms idx = dict_keys (index idx) @ dict_keys (term_doc_freq idx) @
     concat (map (tokens \<circ> snd) (doc_table idx))"

text \<open>
  Well-formedness of an index: distinct document ids, \<open>N\<close> the number of documents,
  and for every term that occurs in it, the posting list and the document frequency
  that the document table determines.
\<close>

definition index_wf :: "inverted_index \<Rightarrow> bool" where
  "index_wf idx \<longleftrightarrow> distinct (dict_keys (doc_table idx)) \<and> N idx = length (doc_table idx) \<and>
     list_all (\<lambda>t. dict_get (index idx) t [] = spec_postings (doc_table idx) t \<and>
                   dict_get (term_doc_freq idx) t 0 = doc_freq (doc_table idx) t) (index_terms idx)"

text \<open>Adding documents one after the other, as the loop of \<open>build\<close> does.\<close>

fun add_all :: "(docid \<times> pdoc) list \<Rightarrow> inverted_index \<Rightarrow> inverted_index" where
  "add_all [] idx = idx"
| "add_all ((d, doc) # ds) idx = add_all ds (add_document d doc idx)"

subsection \<open>\<open>Indexer.build\<close>\<close>

text \<open>
  The directory listing is a list of file names with their contents; a content that is
  not valid JSON is \<open>None\<close>, and \<open>json.load\<close> then raises (a \<open>ValueError\<close>),
  which \<open>build\<close> does not catch. The document id is the file name with
  \<open>.json\<close> removed.
\<close>

type_synonym 'a listing = "(string \<times> 'a option) list"

definition json_ext :: string where
  "json_ext = ''.json''"

definition is_json_name :: "string \<Rightarrow> bool" where
  "is_json_name f \<longleftrightarrow> suffix json_ext f"

fun build_docs :: "pdoc listing \<Rightarrow> inverted_index \<Rightarrow> py_error + inverted_index" where
  "build_docs [] idx = Inr idx"
| "build_docs ((f, c) # fs) idx =
     (if is_json_name f then
        (case c of None \<Rightarrow> Inl ValueError
         | Some doc \<Rightarrow> build_docs fs (add_document (remove_all json_ext f) doc idx))
      else build_docs fs idx)"

text \<open>The documents \<open>build\<close> adds, and whether every \<open>.json\<close> file parses.\<close>

fun json_docs :: "pdoc listing \<Rightarrow> (docid \<times> pdoc) list" where
  "json_docs [] = []"
| "json_docs ((f, c) # fs) =
     (if is_json_name f then (case c of None \<Rightarrow> [] | Some doc \<Rightarrow> [(remove_all json_ext f, doc)])
      else []) @ json_docs fs"

definition listing_parses :: "pdoc listing \<Rightarrow> bool" where
  "listing_parses l \<longleftrightarrow> list_all (\<lambda>(f, c). is_json_name f \<longrightarrow> c \<noteq> None) l"

definition indexer_build :: "pdoc listing \<Rightarrow> py_error + inverted_index" where
  "indexer_build listing = build_docs listing empty_index"

text \<open>
  \<open>save\<close> pickles the five attributes into one dictionary and \<open>load\<close> (as well as
  the start-up code of \<^verbatim>\<open>api.py\<close>) assigns them back one by one; pickling is taken
  to reproduce the values.
\<close>

record index_snapshot =
  snap_index :: "(string, posting list) pydict"
  snap_doc_stats :: "(docid, doc_stat) pydict"
  snap_term_doc_freq :: "(string, nat) pydict"
  snap_doc_table :: "(docid, pdoc) pydict"
  snap_N :: nat

definition index_save :: "inverted_index \<Rightarrow> index_snapshot" where
  "index_save idx = \<lparr>snap_index = index idx, snap_doc_stats = doc_stats idx,
     snap_term_doc_freq = term_doc_freq idx, snap_doc_table = doc_table idx, snap_N = N idx\<rparr>"

definition index_load :: "inverted_index \<Rightarrow> index_snapshot \<Rightarrow> inverted_index" where
  "index_load idx s = idx\<lparr>index := snap_index s, doc_stats := snap_doc_stats s,
     term_doc_freq := snap_term_doc_freq s, doc_table := snap_doc_table s, N := snap_N s\<rparr>"

subsection \<open>A sample document\<close>

definition pd :: "string \<Rightarrow> string list \<Rightarrow> pdoc" where
  "pd u ts = \<lparr>url = u, title = Some u, headings = [], body = u, tokens = ts\<rparr>"

subsection \<open>Positions\<close>

lemma occurrences_Nil [simp]: "occurrences [] t = []"
  by (simp add: occurrences_def)

lemma occurrences_Cons [simp]:
  "occurrences (x # xs) t = (if x = t then [0] else []) @ map Suc (occurrences xs t)"
  by (simp add: occurrences_def upt_conv_Cons map_Suc_upt[symmetric] filter_map comp_def del: upt_Suc)

lemma occurrences_empty_iff [simp]: "occurrences ts t = [] \<longleftrightarrow> t \<notin> set ts"
  by (induction ts) auto

lemma map_of_positions_acc:
  "map_of (positions_acc P i ts) t =
     (if t \<in> set ts then Some (dict_get P t [] @ map ((+) i) (occurrences ts t)) else map_of P t)"
proof (induction ts arbitrary: P i)
  case Nil
  then show ?case by simp
next
  case (Cons x xs)
  then show ?case by (auto simp: dict_get_def comp_def split: option.splits)
qed

lemma map_of_token_positions:
  "map_of (token_positions ts) t = (if t \<in> set ts then Some (occurrences ts t) else None)"
  by (simp add: token_positions_def map_of_positions_acc dict_get_def)

lemma keys_positions_acc:
  "set (dict_keys (positions_acc P i ts)) = set (dict_keys P) \<union> set ts"
  by (induction ts arbitrary: P i) (auto simp: dom_update)

lemma distinct_positions_acc:
  "distinct (dict_keys P) \<Longrightarrow> distinct (dict_keys (positions_acc P i ts))"
  by (induction ts arbitrary: P i) (auto simp: distinct_update)

lemma add_posting_fields [simp]:
  "doc_table (add_posting d idx tp) = doc_table idx"
  "doc_stats (add_posting d idx tp) = doc_stats idx"
  "N (add_posting d idx tp) = N idx"
  by (simp_all add: add_posting_def split: prod.splits)

lemma foldl_add_posting_fields [simp]:
  "doc_table (foldl (add_posting d) idx P) = doc_table idx"
  "doc_stats (foldl (add_posting d) idx P) = doc_stats idx"
  "N (foldl (add_posting d) idx P) = N idx"
  by (induction P arbitrary: idx) simp_all

lemma foldl_add_posting_index:
  "distinct (dict_keys P) \<Longrightarrow>
   dict_get (index (foldl (add_posting d) idx P)) t [] =
     dict_get (index idx) t [] @ (case map_of P t of None \<Rightarrow> [] | Some ps \<Rightarrow> [(d, ps)])"
proof (induction P arbitrary: idx)
  case Nil
  then show ?case by simp
next
  case (Cons tp P)
  obtain t0 ps0 where tp: "tp = (t0, ps0)" by (cases tp)
  with Cons show ?case
    by (auto simp: add_posting_def map_of_eq_None_iff split: option.splits intro: rev_image_eqI)
qed

lemma foldl_add_posting_tdf:
  "distinct (dict_keys P) \<Longrightarrow>
   dict_get (term_doc_freq (foldl (add_posting d) idx P)) t 0 =
     dict_get (term_doc_freq idx) t 0 + (case map_of P t of None \<Rightarrow> 0 | Some ps \<Rightarrow> 1)"
proof (induction P arbitrary: idx)
  case Nil
  then show ?case by simp
next
  case (Cons tp P)
  obtain t0 ps0 where tp: "tp = (t0, ps0)" by (cases tp)
  with Cons show ?case
    by (auto simp: add_posting_def map_of_eq_None_iff split: option.splits intro: rev_image_eqI)
qed

lemma distinct_token_positions: "distinct (dict_keys (token_positions ts))"
  by (simp add: token_positions_def distinct_positions_acc)

lemma add_document_index:
  "dict_get (index (add_document d doc idx)) t [] = dict_get (index idx) t [] @ doc_postings t (d, doc)"
  by (simp add: add_document_def Let_def foldl_add_posting_index distinct_token_positions
      map_of_token_positions doc_postings_def)

lemma add_document_tdf:
  "dict_get (term_doc_freq (add_document d doc idx)) t 0 =
     dict_get (term_doc_freq idx) t 0 + length (doc_postings t (d, doc))"
  by (simp add: add_document_def Let_def foldl_add_posting_tdf distinct_token_positions
      map_of_token_positions doc_postings_def)

lemma add_document_simple [simp]:
  "N (add_document d doc idx) = Suc (N idx)"
  "doc_table (add_document d doc idx) = AList.update d doc (doc_table idx)"
  "doc_stats (add_document d doc idx) =
     AList.update d \<lparr>st_length = length (tokens doc), st_title = title doc, st_url = url doc\<rparr> (doc_stats idx)"
  by (simp_all add: add_document_def Let_def)

lemma add_all_refines:
  "dict_get (index (add_all docs idx)) t [] = dict_get (index idx) t [] @ spec_postings docs t \<and>
   dict_get (term_doc_freq (add_all docs idx)) t 0 = dict_get (term_doc_freq idx) t 0 + length (spec_postings docs t) \<and>
   N (add_all docs idx) = N idx + length docs"
  by (induction docs idx rule: add_all.induct)
     (simp_all add: add_document_index add_document_tdf spec_postings_def)

lemma length_doc_postings: "length (doc_postings t dd) = (if t \<in> set (tokens (snd dd)) then 1 else 0)"
  by (simp add: doc_postings_def split: prod.splits)

lemma length_spec_postings [simp]: "length (spec_postings docs t) = doc_freq docs t"
  by (induction docs) (auto simp: spec_postings_def doc_freq_def length_doc_postings)

lemma spec_postings_snoc [simp]: "spec_postings (docs @ [dd]) t = spec_postings docs t @ doc_postings t dd"
  by (simp add: spec_postings_def)

lemma doc_freq_snoc [simp]: "doc_freq (docs @ [dd]) t = doc_freq docs t + length (doc_postings t dd)"
  by (simp add: doc_freq_def length_doc_postings)

lemma doc_freq_le_length: "doc_freq docs t \<le> length docs"
  by (simp add: doc_freq_def)

lemma doc_freq_notin: "t \<notin> (\<Union>dd \<in> set docs. set (tokens (snd dd))) \<Longrightarrow> doc_freq docs t = 0"
  by (auto simp: doc_freq_def filter_empty_conv)

lemma spec_postings_notin: "t \<notin> (\<Union>dd \<in> set docs. set (tokens (snd dd))) \<Longrightarrow> spec_postings docs t = []"
  using doc_freq_notin [of t docs] length_spec_postings [of docs t] by (metis length_0_conv)

text \<open>The bounded quantifier of \<open>index_wf\<close> speaks of every term.\<close>

lemma index_wf_iff:
  "index_wf idx \<longleftrightarrow> distinct (dict_keys (doc_table idx)) \<and> N idx = length (doc_table idx) \<and>
     (\<forall>t. dict_get (index idx) t [] = spec_postings (doc_table idx) t \<and>
          dict_get (term_doc_freq idx) t 0 = doc_freq (doc_table idx) t)"
proof -
  have outside: "dict_get (index idx) t [] = spec_postings (doc_table idx) t \<and>
          dict_get (term_doc_freq idx) t 0 = doc_freq (doc_table idx) t"
    if "t \<notin> set (index_terms idx)" for t
    using that by (auto simp: index_terms_def dict_get_notin spec_postings_notin doc_freq_notin)
  show ?thesis
    unfolding index_wf_def list_all_iff using outside by blast
qed

lemma index_wf_empty: "index_wf empty_index"
  by (simp add: index_wf_def empty_index_def index_terms_def)

lemma index_wf_add_document:
  assumes "index_wf idx" and "d \<notin> set (dict_keys (doc_table idx))"
  shows "index_wf (add_document d doc idx)"
  using assms by (simp add: index_wf_iff update_absent add_document_index add_document_tdf)

lemma index_wf_df_le_N: "index_wf idx \<Longrightarrow> dict_get (term_doc_freq idx) t 0 \<le> N idx"
  by (simp add: index_wf_iff doc_freq_le_length)

lemma doc_table_add_all:
  "distinct (dict_keys (doc_table idx) @ map fst docs) \<Longrightarrow> doc_table (add_all docs idx) = doc_table idx @ docs"
  by (induction docs idx rule: add_all.induct) (simp_all add: update_absent)

lemma doc_stats_add_all:
  "distinct (dict_keys (doc_stats idx) @ map fst docs) \<Longrightarrow>
   doc_stats (add_all docs idx) =
     doc_stats idx @ map (\<lambda>(d, doc). (d, \<lparr>st_length = length (tokens doc), st_title = title doc, st_url = url doc\<rparr>)) docs"
  by (induction docs idx rule: add_all.induct) (simp_all add: update_absent)

lemma index_wf_add_all:
  "index_wf idx \<Longrightarrow> distinct (dict_keys (doc_table idx) @ map fst docs) \<Longrightarrow> index_wf (add_all docs idx)"
  by (induction docs idx rule: add_all.induct) (simp_all add: index_wf_add_document update_absent)

lemma build_docs_eq:
  "build_docs l idx = (if listing_parses l then Inr (add_all (json_docs l) idx) else Inl ValueError)"
  by (induction l idx rule: build_docs.induct) (auto simp: listing_parses_def split: option.splits)

lemma add_all_empty:
  "dict_get (index (add_all docs empty_index)) t [] = spec_postings docs t \<and>
   dict_get (term_doc_freq (add_all docs empty_index)) t 0 = doc_freq docs t \<and>
   N (add_all docs empty_index) = length docs"
  using add_all_refines [of docs empty_index t] by (simp add: empty_index_def)

text \<open>The key \<open>fname.replace('.json', '')\<close> of a file \<open>h.json\<close>, and of \<open>h.json.json\<close>,
  for a base name without a point.\<close>

lemma remove_all_json: "CHR ''.'' \<notin> set h \<Longrightarrow> remove_all json_ext (h @ ''.json'') = h"
  using py_replace_skip [of "''.json''" h "[]" "''.json''"] py_replace_self [of "''.json''" "[]"]
  by (simp add: remove_all_py_replace json_ext_def)

lemma remove_all_json_json: "CHR ''.'' \<notin> set h \<Longrightarrow> remove_all json_ext (h @ ''.json.json'') = h"
  using py_replace_skip [of "''.json''" h "[]" "''.json.json''"]
  by (simp add: remove_all_py_replace json_ext_def)

text \<open>
  C3. Refinement of the index builder: after \<open>build\<close> has added the documents of a
  listing that parses, the posting list of every term is the list of
  \<open>(doc_id, positions)\<close> of the documents containing it, in processing order, the
  positions being exactly the indices where the term occurs; \<open>term_doc_freq\<close> counts
  those documents once each and \<open>N\<close> counts the documents; a listing with a \<open>.json\<close>
  file that does not parse makes \<open>build\<close> raise.
\<close>

theorem indexer_build_refines:
  "indexer_build l =
     (if listing_parses l then Inr (add_all (json_docs l) empty_index) else Inl ValueError) \<and>
   dict_get (index (add_all (json_docs l) empty_index)) t [] =
     concat (map (\<lambda>(d, doc). if t \<in> set (tokens doc)
                                then [(d, filter (\<lambda>i. tokens doc ! i = t) [0..<length (tokens doc)])] else [])
                (json_docs l)) \<and>
   dict_get (term_doc_freq (add_all (json_docs l) empty_index)) t 0 =
     length (filter (\<lambda>(d, doc). t \<in> set (tokens doc)) (json_docs l)) \<and>
   N (add_all (json_docs l) empty_index) = length (json_docs l)"
proof -
  have "spec_postings (json_docs l) t =
     concat (map (\<lambda>(d, doc). if t \<in> set (tokens doc)
                                then [(d, filter (\<lambda>i. tokens doc ! i = t) [0..<length (tokens doc)])] else [])
                (json_docs l))"
    unfolding spec_postings_def
    by (intro arg_cong [where f = concat] map_cong) (auto simp: doc_postings_def occurrences_def)
  moreover have "doc_freq (json_docs l) t = length (filter (\<lambda>(d, doc). t \<in> set (tokens doc)) (json_docs l))"
    by (simp add: doc_freq_def case_prod_beta')
  ultimately show ?thesis
    using add_all_empty [of "json_docs l" t] by (simp add: indexer_build_def build_docs_eq)
qed

text \<open>
  C4. The index invariant holds for what \<open>build\<close> produces: when the document ids
  of the listing are distinct, the built index is well formed (\<open>N\<close> is the number of
  documents of \<open>doc_table\<close>, postings and document frequencies are those of the
  document table), its document table is the listing's documents in order, and every
  document frequency is at most \<open>N\<close>.
\<close>

theorem indexer_build_wf:
  assumes "indexer_build l = Inr idx" and "distinct (map fst (json_docs l))"
  shows "index_wf idx \<and> doc_table idx = json_docs l \<and> (\<forall>t. dict_get (term_doc_freq idx) t 0 \<le> N idx)"
proof -
  from assms(1) have idx: "idx = add_all (json_docs l) empty_index"
    by (simp add: indexer_build_def build_docs_eq split: if_splits)
  have wf: "index_wf idx"
    unfolding idx using assms(2) by (intro index_wf_add_all index_wf_empty) (simp add: empty_index_def)
  moreover have "doc_table idx = json_docs l"
    unfolding idx using assms(2) doc_table_add_all [of empty_index "json_docs l"] by (simp add: empty_index_def)
  moreover have "\<forall>t. dict_get (term_doc_freq idx) t 0 \<le> N idx"
    using index_wf_df_le_N [OF wf] by blast
  ultimately show ?thesis by blast
qed

theorem indexer_build_wf_witness:
  "index_wf (add_all [(''d1'', pd ''u1'' [''a'', ''b'']), (''d2'', pd ''u2'' [''a''])] empty_index) \<and>
   doc_table (add_all [(''d1'', pd ''u1'' [''a'', ''b'']), (''d2'', pd ''u2'' [''a''])] empty_index) =
     [(''d1'', pd ''u1'' [''a'', ''b'']), (''d2'', pd ''u2'' [''a''])] \<and>
   (\<forall>t. dict_get (term_doc_freq (add_all [(''d1'', pd ''u1'' [''a'', ''b'']), (''d2'', pd ''u2'' [''a''])] empty_index)) t 0
        \<le> N (add_all [(''d1'', pd ''u1'' [''a'', ''b'']), (''d2'', pd ''u2'' [''a''])] empty_index))"
proof -
  let ?l = "[(''d1.json'', Some (pd ''u1'' [''a'', ''b''])), (''notes.txt'', None), (''d2.json'', Some (pd ''u2'' [''a'']))]"
  have docs: "json_docs ?l = [(''d1'', pd ''u1'' [''a'', ''b'']), (''d2'', pd ''u2'' [''a''])]"
    by (simp add: is_json_name_def json_ext_def pystr)
  have ok: "listing_parses ?l"
    by (simp add: listing_parses_def is_json_name_def json_ext_def pystr)
  have "indexer_build ?l = Inr (add_all (json_docs ?l) empty_index)"
    using ok by (simp add: indexer_build_def build_docs_eq)
  from indexer_build_wf [OF this] show ?thesis
    by (simp only: docs) simp
qed

text \<open>
  C38. Document ids must be distinct: \<open>add_document\<close> overwrites the table entry of
  a known id but appends its postings and counts it again, so adding one id twice breaks
  the invariant (\<open>N\<close> is 2 for one table entry). \<open>build\<close> takes the id from the file
  name with every \<open>.json\<close> removed, so the two files \<open>a.json\<close> and
  \<open>a.json.json\<close> collide.
\<close>

theorem add_document_same_id:
  "N (add_document d doc' (add_document d doc empty_index)) = 2 \<and>
   length (doc_table (add_document d doc' (add_document d doc empty_index))) = 1 \<and>
   \<not> index_wf (add_document d doc' (add_document d doc empty_index)) \<and>
   map fst (json_docs [(''a.json'', Some doc), (''a.json.json'', Some doc')]) = [''a'', ''a'']"
  by (simp add: index_wf_def empty_index_def is_json_name_def json_ext_def pystr)

end
