(* ===== verification/Dedupe.thy ===== *)
theory Dedupe
  imports Indexer "HOL-Library.Word"
begin

unbundle bit_operations_syntax

text \<open>
  The near-duplicate filter of \<^verbatim>\<open>src/src/dedupe.py\<close>. \<open>Deduplicator.dedupe\<close>
  walks the parsed directory, builds a datasketch \<open>MinHash\<close> of each document's token
  set and keeps the document when \<open>MinHashLSH.query\<close> finds no candidate, inserting its
  signature under the file name without \<open>.json\<close>. The parts of datasketch that decide
  the outcome are modelled as the library computes them:
  \<^item> \<open>MinHash(num_perm)\<close> starts with every value at \<open>2^32 - 1\<close>; \<open>update\<close> hashes
    the token to 32 bits (SHA-1, a given function \<open>h32\<close> here) and, for each permutation
    \<open>(a, b)\<close>, takes the minimum with \<open>((a * hv + b) mod (2^61 - 1)) AND (2^32 - 1)\<close>,
    computed on NumPy \<open>uint64\<close> values: the product and the sum wrap around modulo
    \<open>2^64\<close>, so they are \<open>64 word\<close> operations. The permutations come from a seeded
    random generator and are a parameter.
  \<^item> \<open>MinHashLSH\<close> cuts a signature into \<open>b\<close> bands of \<open>r\<close> values (both chosen
    by the library from the threshold; parameters here); \<open>query\<close> returns the keys of the
    inserted signatures that agree with the candidate on a whole band, and \<open>insert\<close>
    raises \<open>ValueError\<close> for a key it already holds. The hash tables are represented by
    the list of inserted keys with their signatures, from which every band lookup is
    computed.
  The iteration over \<open>set(doc['tokens'])\<close> is modelled as iteration over the token list:
  the signature depends only on the set of tokens (lemma \<open>minhash_tokens_set\<close>).
\<close>

type_synonym sig = "64 word list"

definition mersenne_prime :: "64 word" where
  "mersenne_prime = 2 ^ 61 - 1"

definition max_hash :: "64 word" where
  "max_hash = 2 ^ 32 - 1"

definition perm_hash :: "64 word \<times> 64 word \<Rightarrow> 32 word \<Rightarrow> 64 word" where
  "perm_hash ab hv = (case ab of (a, b) \<Rightarrow> ((a * ucast hv + b) mod mersenne_prime) AND max_hash)"

definition minhash_init :: "(64 word \<times> 64 word) list \<Rightarrow> sig" where
  "minhash_init perms = replicate (length perms) max_hash"

definition minhash_update :: "(64 word \<times> 64 word) list \<Rightarrow> sig \<Rightarrow> 32 word \<Rightarrow> sig" where
  "minhash_update perms hvs hv = map2 (\<lambda>p v. min (perm_hash p hv) v) perms hvs"

definition minhash_tokens :: "(64 word \<times> 64 word) list \<Rightarrow> (string \<Rightarrow> 32 word) \<Rightarrow> string list \<Rightarrow> sig" where
  "minhash_tokens perms h32 ts = foldl (\<lambda>hvs t. minhash_update perms hvs (h32 t)) (minhash_init perms) ts"

record lsh =
  lsh_bands :: nat
  lsh_rows :: nat
  lsh_keys :: "(string \<times> sig) list"

definition band :: "nat \<Rightarrow> sig \<Rightarrow> nat \<Rightarrow> sig" where
  "band r s i = take r (drop (i * r) s)"

definition collides :: "nat \<Rightarrow> nat \<Rightarrow> sig \<Rightarrow> sig \<Rightarrow> bool" where
  "collides nb r s s' \<longleftrightarrow> list_ex (\<lambda>i. band r s i = band r s' i) [0..<nb]"

definition lsh_query :: "lsh \<Rightarrow> sig \<Rightarrow> string list" where
  "lsh_query L s = map fst (filter (\<lambda>ks. collides (lsh_bands L) (lsh_rows L) (snd ks) s) (lsh_keys L))"

definition lsh_insert :: "lsh \<Rightarrow> string \<Rightarrow> sig \<Rightarrow> py_error + lsh" where
  "lsh_insert L k s =
     (if k \<in> set (map fst (lsh_keys L)) then Inl ValueError else Inr (L\<lparr>lsh_keys := lsh_keys L @ [(k, s)]\<rparr>))"

record dedup_cfg =
  perms :: "(64 word \<times> 64 word) list"
  h32 :: "string \<Rightarrow> 32 word"

text \<open>The signature of one document: \<open>m = MinHash(num_perm)\<close>, then \<open>m.update\<close> per token.\<close>

definition doc_sig :: "dedup_cfg \<Rightarrow> pdoc \<Rightarrow> sig" where
  "doc_sig cfg doc = minhash_tokens (perms cfg) (h32 cfg) (tokens doc)"

text \<open>The loop of \<open>dedupe\<close>: the LSH index and the files written, in order.\<close>

fun dedupe_loop :: "dedup_cfg \<Rightarrow> lsh \<Rightarrow> (string \<times> pdoc) list \<Rightarrow> pdoc listing \<Rightarrow> py_error + lsh \<times> (string \<times> pdoc) list" where
  "dedupe_loop cfg L out [] = Inr (L, out)"
| "dedupe_loop cfg L out ((f, c) # fs) =
     (if is_json_name f then
        (case c of
           None \<Rightarrow> Inl ValueError
         | Some doc \<Rightarrow>
             (let m = doc_sig cfg doc;
                  h = remove_all json_ext f
              in if lsh_query L m = [] then
                   (case lsh_insert L h m of
                      Inl e \<Rightarrow> Inl e
                    | Inr L' \<Rightarrow> dedupe_loop cfg L' (out @ [(f, doc)]) fs)
                 else dedupe_loop cfg L out fs))
      else dedupe_loop cfg L out fs)"

text \<open>The index \<open>Deduplicator.__init__\<close> creates, \<open>MinHashLSH(threshold, num_perm=128)\<close>:
  empty, with the band layout datasketch derives from the threshold.\<close>

definition lsh_new :: "nat \<Rightarrow> nat \<Rightarrow> lsh" where
  "lsh_new nb r = \<lparr>lsh_bands = nb, lsh_rows = r, lsh_keys = []\<rparr>"

definition dedupe :: "dedup_cfg \<Rightarrow> nat \<Rightarrow> nat \<Rightarrow> pdoc listing \<Rightarrow> py_error + (string \<times> pdoc) list" where
  "dedupe cfg nb r listing =
     (case dedupe_loop cfg (lsh_new nb r) [] listing of
        Inl e \<Rightarrow> Inl e
      | Inr (L, out) \<Rightarrow> Inr out)"


text \<open>The greedy filter the loop implements, over the parsed \<open>.json\<close> files.\<close>

definition perm_min :: "(string \<Rightarrow> 32 word) \<Rightarrow> string list \<Rightarrow> 64 word \<times> 64 word \<Rightarrow> 64 word" where
  "perm_min h ts p = Min (insert max_hash ((\<lambda>t. perm_hash p (h t)) ` set ts))"

fun json_files :: "pdoc listing \<Rightarrow> (string \<times> pdoc) list" where
  "json_files [] = []"
| "json_files ((f, None) # fs) = json_files fs"
| "json_files ((f, Some doc) # fs) = (if is_json_name f then [(f, doc)] else []) @ json_files fs"

fun greedy :: "nat \<Rightarrow> nat \<Rightarrow> (pdoc \<Rightarrow> sig) \<Rightarrow> (string \<times> pdoc) list \<Rightarrow> (string \<times> pdoc) list \<Rightarrow> (string \<times> pdoc) list" where
  "greedy nb r sg kept [] = kept"
| "greedy nb r sg kept (d # ds) =
     (if list_ex (\<lambda>k. collides nb r (sg (snd k)) (sg (snd d))) kept then greedy nb r sg kept ds
      else greedy nb r sg (kept @ [d]) ds)"

definition dedupe_spec :: "dedup_cfg \<Rightarrow> nat \<Rightarrow> nat \<Rightarrow> pdoc listing \<Rightarrow> py_error + (string \<times> pdoc) list" where
  "dedupe_spec cfg nb r l =
     (let g = greedy nb r (doc_sig cfg) [] (json_files l)
      in if listing_parses l \<and> distinct (map (\<lambda>(f, d). remove_all json_ext f) g) then Inr g else Inl ValueError)"

definition dd_cfg :: dedup_cfg where
  "dd_cfg = \<lparr>perms = [(1, 0)], h32 = (\<lambda>t. if t = ''x'' then 1 else 2)\<rparr>"

subsection \<open>Lemmas\<close>

lemma minhash_update_map:
  "minhash_update ps (map g ps) hv = map (\<lambda>p. min (perm_hash p hv) (g p)) ps"
  by (induction ps) (simp_all add: minhash_update_def)

lemma minhash_tokens_Min: "minhash_tokens ps h ts = map (perm_min h ts) ps"
proof (induction ts rule: rev_induct)
  case Nil
  then show ?case by (simp add: minhash_tokens_def minhash_init_def perm_min_def map_replicate_const)
next
  case (snoc t ts)
  have "minhash_tokens ps h (ts @ [t]) = minhash_update ps (minhash_tokens ps h ts) (h t)"
    by (simp add: minhash_tokens_def)
  also have "\<dots> = map (\<lambda>p. min (perm_hash p (h t)) (perm_min h ts p)) ps"
    by (simp add: snoc minhash_update_map)
  also have "\<dots> = map (perm_min h (ts @ [t])) ps"
    by (simp add: perm_min_def insert_commute [of max_hash])
  finally show ?case .
qed

lemma minhash_tokens_set: "set ts = set ts' \<Longrightarrow> minhash_tokens ps h ts = minhash_tokens ps h ts'"
  by (simp add: minhash_tokens_Min perm_min_def)

lemma greedy_prefix: "\<exists>zs. greedy nb r sg kept ds = kept @ zs"
proof (induction nb r sg kept ds rule: greedy.induct)
  case (2 nb r sg kept d ds)
  then show ?case by (metis append.assoc greedy.simps(2))
qed simp

lemma lsh_query_Nil:
  "lsh_query L s = [] \<longleftrightarrow> \<not> list_ex (\<lambda>ks. collides (lsh_bands L) (lsh_rows L) (snd ks) s) (lsh_keys L)"
  by (simp add: lsh_query_def filter_empty_conv list_ex_iff)

lemma dedupe_loop_eq:
  assumes "lsh_keys L = map (\<lambda>(f, d). (remove_all json_ext f, doc_sig cfg d)) out"
    and "distinct (map (\<lambda>(f, d). remove_all json_ext f) out)"
  shows "dedupe_loop cfg L out l =
     (let g = greedy (lsh_bands L) (lsh_rows L) (doc_sig cfg) out (json_files l)
      in if listing_parses l \<and> distinct (map (\<lambda>(f, d). remove_all json_ext f) g)
         then Inr (L\<lparr>lsh_keys := map (\<lambda>(f, d). (remove_all json_ext f, doc_sig cfg d)) g\<rparr>, g)
         else Inl ValueError)"
  using assms
proof (induction cfg L out l rule: dedupe_loop.induct)
  case (1 cfg L out)
  then show ?case by (simp add: listing_parses_def)
next
  case (2 cfg L out f c fs)
  let ?key = "\<lambda>(f::string, d::pdoc). remove_all json_ext f"
  let ?ent = "\<lambda>(f, d). (remove_all json_ext f, doc_sig cfg d)"
  show ?case
  proof (cases "is_json_name f")
    case False
    with 2 show ?thesis by (cases c) (simp_all add: listing_parses_def)
  next
    case json: True
    show ?thesis
    proof (cases c)
      case None
      with json show ?thesis by (simp add: listing_parses_def)
    next
      case (Some doc)
      have q: "lsh_query L (doc_sig cfg doc) = [] \<longleftrightarrow>
               \<not> list_ex (\<lambda>k. collides (lsh_bands L) (lsh_rows L) (doc_sig cfg (snd k)) (doc_sig cfg doc)) out"
        using 2(4) by (simp add: lsh_query_Nil list_ex_iff split_def)
      show ?thesis
      proof (cases "lsh_query L (doc_sig cfg doc) = []")
        case False
        with json Some q 2(2) 2(4,5) show ?thesis
          by (simp add: listing_parses_def Let_def)
      next
        case empty: True
        show ?thesis
        proof (cases "remove_all json_ext f \<in> set (map ?key out)")
          case True
          obtain zs where "greedy (lsh_bands L) (lsh_rows L) (doc_sig cfg) (out @ [(f, doc)]) (json_files fs) = out @ [(f, doc)] @ zs"
            using greedy_prefix [of "lsh_bands L" "lsh_rows L" "doc_sig cfg" "out @ [(f, doc)]" "json_files fs"]
            by auto
          with True json Some q empty 2(4) show ?thesis
            by (simp add: lsh_insert_def Let_def split_def)
        next
          case False
          with json Some q empty 2(1) [of doc "doc_sig cfg doc" "remove_all json_ext f"] 2(4,5) show ?thesis
            by (simp add: lsh_insert_def Let_def split_def listing_parses_def)
        qed
      qed
    qed
  qed
qed


lemma collides_sym: "collides nb r s s' = collides nb r s' s"
  unfolding collides_def list_ex_iff by (auto; force)

lemma greedy_subseq: "subseq kept kept' \<Longrightarrow> subseq (greedy nb r sg kept ds) (kept' @ ds)"
proof (induction nb r sg kept ds arbitrary: kept' rule: greedy.induct)
  case (1 nb r sg kept)
  then show ?case by (simp add: list_emb_append2)
next
  case (2 nb r sg kept d ds)
  have "subseq kept (kept' @ [d])" using list_emb_append_mono [OF 2(3), of "[]" "[d]"] by simp
  moreover have "subseq (kept @ [d]) (kept' @ [d])" using 2(3) by (simp add: list_emb_append_mono)
  ultimately show ?case
    using 2(1) [of "kept' @ [d]"] 2(2) [of "kept' @ [d]"] by (cases "list_ex (\<lambda>k. collides nb r (sg (snd k)) (sg (snd d))) kept") auto
qed

lemma greedy_pairwise:
  "sorted_wrt (\<lambda>a b. \<not> collides nb r (sg (snd a)) (sg (snd b))) kept \<Longrightarrow>
   sorted_wrt (\<lambda>a b. \<not> collides nb r (sg (snd a)) (sg (snd b))) (greedy nb r sg kept ds)"
  by (induction nb r sg kept ds rule: greedy.induct) (auto simp: sorted_wrt_append list_ex_iff)

lemma greedy_dropped:
  "d \<in> set ds \<Longrightarrow> d \<notin> set (greedy nb r sg kept ds) \<Longrightarrow>
   \<exists>k \<in> set (greedy nb r sg kept ds). collides nb r (sg (snd k)) (sg (snd d))"
proof (induction nb r sg kept ds rule: greedy.induct)
  case (1 nb r sg kept)
  then show ?case by simp
next
  case (2 nb r sg kept d' ds)
  obtain zs where zs: "greedy nb r sg kept ds = kept @ zs"
    using greedy_prefix [of nb r sg kept ds] by auto
  obtain zs' where zs': "greedy nb r sg (kept @ [d']) ds = kept @ [d'] @ zs'"
    using greedy_prefix [of nb r sg "kept @ [d']" ds] by auto
  show ?case
  proof (cases "d = d'")
    case True
    with 2(3,4) zs zs' show ?thesis by (auto simp: list_ex_iff split: if_splits)
  next
    case False
    with 2 show ?thesis by (auto split: if_splits)
  qed
qed

lemma greedy_keeps_all:
  "sorted_wrt (\<lambda>a b. \<not> collides nb r (sg (snd a)) (sg (snd b))) (kept @ ds) \<Longrightarrow>
   greedy nb r sg kept ds = kept @ ds"
  by (induction nb r sg kept ds rule: greedy.induct) (auto simp: sorted_wrt_append list_ex_iff)

lemma json_files_names: "x \<in> set (json_files l) \<Longrightarrow> is_json_name (fst x)"
  by (induction l rule: json_files.induct) auto

lemma json_files_Some:
  "list_all (\<lambda>(f, d). is_json_name f) ds \<Longrightarrow> json_files (map (\<lambda>(f, d). (f, Some d)) ds) = ds"
  by (induction ds) auto

lemma listing_parses_Some: "listing_parses (map (\<lambda>(f, d). (f, Some d)) ds)"
  by (induction ds) (auto simp: listing_parses_def)

lemma sorted_wrt_sym_distinct:
  assumes "symp R" and "distinct xs"
  shows "sorted_wrt R xs \<longleftrightarrow> (\<forall>x \<in> set xs. \<forall>y \<in> set xs. x \<noteq> y \<longrightarrow> R x y)"
  using assms by (induction xs) (auto dest: sympD)

lemma dedupe_Inr:
  "dedupe cfg nb r l = Inr out \<longleftrightarrow>
   listing_parses l \<and> out = greedy nb r (doc_sig cfg) [] (json_files l) \<and>
   distinct (map (\<lambda>(f, d). remove_all json_ext f) out)"
  using dedupe_loop_eq [of "\<lparr>lsh_bands = nb, lsh_rows = r, lsh_keys = []\<rparr>" cfg "[]" l]
  by (auto simp: dedupe_def lsh_new_def Let_def)

lemma same_tokens_collide:
  "0 < nb \<Longrightarrow> set (tokens d) = set (tokens d') \<Longrightarrow> collides nb r (doc_sig cfg d) (doc_sig cfg d')"
  using minhash_tokens_set [of "tokens d" "tokens d'"]
  by (auto simp: collides_def list_ex_iff doc_sig_def)

lemmas dedupe_eval = dedupe_def lsh_new_def doc_sig_def minhash_tokens_def minhash_init_def minhash_update_def
  perm_hash_def mersenne_prime_def max_hash_def lsh_query_def collides_def band_def lsh_insert_def
  is_json_name_def json_ext_def dd_cfg_def pd_def Let_def

lemma perm_min_le: "perm_min h ts p \<le> max_hash"
  by (simp add: perm_min_def)

lemma le_max_hash_unat: "v \<le> max_hash \<Longrightarrow> unat v < 2 ^ 32"
proof -
  assume "v \<le> max_hash"
  then have "unat v \<le> unat max_hash" by (simp add: word_le_nat_alt)
  also have "unat max_hash = 2 ^ 32 - 1" by (simp add: max_hash_def)
  finally show ?thesis by simp
qed

lemma dedupe_out_json: "dedupe cfg nb r l = Inr out \<Longrightarrow> list_all (\<lambda>(f, d). is_json_name f) out"
  using greedy_subseq [of "[]" "[]" nb r "doc_sig cfg" "json_files l"] json_files_names
  by (fastforce simp: dedupe_Inr list_all_iff elim: list_emb_set)

lemma distinct_mset_map: "distinct (map g xs) \<Longrightarrow> mset ys = mset xs \<Longrightarrow> distinct (map g ys)"
  by (metis mset_eq_imp_distinct_iff mset_map)

text \<open>
  C5. The detector implements the greedy near-duplicate filter: it walks the \<open>.json\<close>
  files of the listing in order and keeps a file when its signature collides in no band with a
  file already kept. It completes exactly when every \<open>.json\<close> file parses and the keys of
  the kept files (names without \<open>.json\<close>) are distinct; otherwise it raises
  \<open>ValueError\<close>, from \<open>json.load\<close> or from \<open>MinHashLSH.insert\<close>.
\<close>

theorem dedupe_refines: "dedupe cfg nb r l = dedupe_spec cfg nb r l"
  using dedupe_loop_eq [of "\<lparr>lsh_bands = nb, lsh_rows = r, lsh_keys = []\<rparr>" cfg "[]" l]
  by (simp add: dedupe_def lsh_new_def dedupe_spec_def Let_def)

theorem dedupe_refines_witness:
  "dedupe dd_cfg 1 1 [(''a.json'', Some (pd ''a'' [''x''])), (''b.txt'', None), (''c.json'', Some (pd ''c'' [''x'', ''x'']))] =
   dedupe_spec dd_cfg 1 1 [(''a.json'', Some (pd ''a'' [''x''])), (''b.txt'', None), (''c.json'', Some (pd ''c'' [''x'', ''x'']))]"
  by (rule dedupe_refines)

text \<open>
  C6. The detector's output: when it completes, the files written are the \<open>.json\<close> files
  of the listing in listing order, a subsequence of it, no two of them collide in a band,
  every file left out collides with a file written, and the keys are distinct.
\<close>

theorem dedupe_correct:
  assumes "dedupe cfg nb r l = Inr out"
  shows "subseq out (json_files l) \<and>
         sorted_wrt (\<lambda>a b. \<not> collides nb r (doc_sig cfg (snd a)) (doc_sig cfg (snd b))) out \<and>
         (\<forall>d \<in> set (json_files l). d \<notin> set out \<longrightarrow>
            (\<exists>k \<in> set out. collides nb r (doc_sig cfg (snd k)) (doc_sig cfg (snd d)))) \<and>
         distinct (map (\<lambda>(f, d). remove_all json_ext f) out)"
  using assms greedy_subseq [of "[]" "[]"] greedy_pairwise [of nb r _ "[]"] greedy_dropped
  by (auto simp: dedupe_Inr)

theorem dedupe_correct_witness:
  "dedupe dd_cfg 1 1 [(''a.json'', Some (pd ''a'' [''x''])), (''b.json'', Some (pd ''b'' [''y''])),
                     (''c.json'', Some (pd ''c'' [''x'', ''x'']))] =
     Inr [(''a.json'', pd ''a'' [''x'']), (''b.json'', pd ''b'' [''y''])] \<and>
   subseq [(''a.json'', pd ''a'' [''x'']), (''b.json'', pd ''b'' [''y''])]
     (json_files [(''a.json'', Some (pd ''a'' [''x''])), (''b.json'', Some (pd ''b'' [''y''])),
                  (''c.json'', Some (pd ''c'' [''x'', ''x'']))])"
proof -
  have e: "dedupe dd_cfg 1 1 [(''a.json'', Some (pd ''a'' [''x''])), (''b.json'', Some (pd ''b'' [''y''])),
                     (''c.json'', Some (pd ''c'' [''x'', ''x'']))] =
     Inr [(''a.json'', pd ''a'' [''x'']), (''b.json'', pd ''b'' [''y''])]"
    by (simp add: dedupe_eval pystr)
  then have "subseq [(''a.json'', pd ''a'' [''x'']), (''b.json'', pd ''b'' [''y''])]
     (json_files [(''a.json'', Some (pd ''a'' [''x''])), (''b.json'', Some (pd ''b'' [''y''])),
                  (''c.json'', Some (pd ''c'' [''x'', ''x'']))])"
    by (rule dedupe_correct [THEN conjunct1])
  with e show ?thesis by blast
qed

text \<open>
  C26. Exact duplicates are removed: when the detector completes and the LSH index has at least
  one band, no two files it writes have the same set of tokens.
\<close>

theorem dedupe_exact_duplicates:
  assumes "dedupe cfg nb r l = Inr out" and "0 < nb"
  shows "sorted_wrt (\<lambda>a b. set (tokens (snd a)) \<noteq> set (tokens (snd b))) out"
proof -
  have "sorted_wrt (\<lambda>a b. \<not> collides nb r (doc_sig cfg (snd a)) (doc_sig cfg (snd b))) out"
    using assms(1) greedy_pairwise [of nb r _ "[]"] by (auto simp: dedupe_Inr)
  then show ?thesis
    by (rule sorted_wrt_mono_rel [rotated]) (use assms(2) same_tokens_collide in blast)
qed

theorem dedupe_exact_duplicates_witness:
  "dedupe dd_cfg 1 1 [(''a.json'', Some (pd ''a'' [''x''])), (''c.json'', Some (pd ''c'' [''x'', ''x'']))] =
     Inr [(''a.json'', pd ''a'' [''x''])] \<and> (0::nat) < 1 \<and>
   sorted_wrt (\<lambda>a b. set (tokens (snd a)) \<noteq> set (tokens (snd b))) [(''a.json'', pd ''a'' [''x''])]"
proof -
  have e: "dedupe dd_cfg 1 1 [(''a.json'', Some (pd ''a'' [''x''])), (''c.json'', Some (pd ''c'' [''x'', ''x'']))] =
     Inr [(''a.json'', pd ''a'' [''x''])]"
    by (simp add: dedupe_eval pystr)
  have "(0::nat) < 1" by simp
  with e have "sorted_wrt (\<lambda>a b. set (tokens (snd a)) \<noteq> set (tokens (snd b))) [(''a.json'', pd ''a'' [''x''])]"
    by (rule dedupe_exact_duplicates)
  with e show ?thesis by simp
qed

text \<open>
  C27. Running the detector again on the directory it wrote, listed in any order, writes every
  file again: its output is a fixed point.
\<close>

theorem dedupe_idempotent:
  assumes "dedupe cfg nb r l = Inr out" and "mset out' = mset out"
  shows "dedupe cfg nb r (map (\<lambda>(f, d). (f, Some d)) out') = Inr out'"
proof -
  let ?R = "\<lambda>a b. \<not> collides nb r (doc_sig cfg (snd a)) (doc_sig cfg (snd b))"
  let ?key = "\<lambda>(f::string, d::pdoc). remove_all json_ext f"
  have sy: "symp ?R" by (auto intro: sympI simp: collides_sym)
  have dk: "distinct (map ?key out)" and sw: "sorted_wrt ?R out"
    using assms(1) greedy_pairwise [of nb r _ "[]"] by (auto simp: dedupe_Inr)
  have dk': "distinct (map ?key out')" using distinct_mset_map [OF dk assms(2)] .
  have set_eq: "set out' = set out" using assms(2) by (metis set_mset_mset)
  have "distinct out" "distinct out'" using dk dk' distinct_map by blast+
  then have "sorted_wrt ?R out'"
    using sw set_eq sorted_wrt_sym_distinct [OF sy] by metis
  then have g: "greedy nb r (doc_sig cfg) [] out' = out'" by (simp add: greedy_keeps_all)
  have "list_all (\<lambda>(f, d). is_json_name f) out'"
    using dedupe_out_json [OF assms(1)] set_eq by (simp add: list_all_iff)
  then have "json_files (map (\<lambda>(f, d). (f, Some d)) out') = out'" by (rule json_files_Some)
  with g dk' show ?thesis by (simp add: dedupe_Inr listing_parses_Some)
qed

theorem dedupe_idempotent_witness:
  "dedupe dd_cfg 1 1 [(''a.json'', Some (pd ''a'' [''x''])), (''b.json'', Some (pd ''b'' [''y''])),
                     (''c.json'', Some (pd ''c'' [''x'', ''x'']))] =
     Inr [(''a.json'', pd ''a'' [''x'']), (''b.json'', pd ''b'' [''y''])] \<and>
   dedupe dd_cfg 1 1 [(''b.json'', Some (pd ''b'' [''y''])), (''a.json'', Some (pd ''a'' [''x'']))] =
     Inr [(''b.json'', pd ''b'' [''y'']), (''a.json'', pd ''a'' [''x''])]"
proof -
  have e: "dedupe dd_cfg 1 1 [(''a.json'', Some (pd ''a'' [''x''])), (''b.json'', Some (pd ''b'' [''y''])),
                     (''c.json'', Some (pd ''c'' [''x'', ''x'']))] =
     Inr [(''a.json'', pd ''a'' [''x'']), (''b.json'', pd ''b'' [''y''])]"
    by (simp add: dedupe_eval pystr)
  have m: "mset [(''b.json'', pd ''b'' [''y'']), (''a.json'', pd ''a'' [''x''])] =
           mset [(''a.json'', pd ''a'' [''x'']), (''b.json'', pd ''b'' [''y''])]" by simp
  from dedupe_idempotent [OF e m] e show ?thesis by simp
qed

lemma json_name_pair:
  "is_json_name (h @ ''.json'')" "is_json_name (h @ ''.json.json'')"
  by (simp_all add: is_json_name_def json_ext_def suffix_def)

text \<open>
  C39. The LSH key is the file name with every \<open>.json\<close> removed, so for every base name
  \<open>h\<close> without a point the files \<open>h.json\<close> and \<open>h.json.json\<close> share the key \<open>h\<close>.
  Listed in this order, the second file is either dropped as a near-duplicate of the first
  or, when their signatures collide in no band, makes \<open>MinHashLSH.insert\<close> raise
  \<open>ValueError\<close>, which stops the run: two unrelated documents can never both be kept.
\<close>

theorem dedupe_key_collision:
  assumes "CHR ''.'' \<notin> set h"
  shows "dedupe cfg nb r [(h @ ''.json'', Some d1), (h @ ''.json.json'', Some d2)] =
           (if collides nb r (doc_sig cfg d1) (doc_sig cfg d2) then Inr [(h @ ''.json'', d1)] else Inl ValueError)"
proof -
  let ?l = "[(h @ ''.json'', Some d1), (h @ ''.json.json'', Some d2)]"
  have k: "remove_all json_ext (h @ ''.json'') = h" "remove_all json_ext (h @ ''.json.json'') = h"
    using assms by (simp_all add: remove_all_json remove_all_json_json)
  have "listing_parses ?l" "json_files ?l = [(h @ ''.json'', d1), (h @ ''.json.json'', d2)]"
    by (simp_all add: listing_parses_def json_name_pair)
  then show ?thesis
    using dedupe_loop_eq [of "lsh_new nb r" cfg "[]" ?l] k
    by (simp add: dedupe_def lsh_new_def Let_def)
qed

theorem dedupe_key_collision_witness:
  "CHR ''.'' \<notin> set ''a'' \<and>
   dedupe dd_cfg 1 1 [(''a'' @ ''.json'', Some (pd ''a'' [''x''])), (''a'' @ ''.json.json'', Some (pd ''b'' [''y'']))] =
     Inl ValueError"
  using dedupe_key_collision [of "''a''" dd_cfg 1 1 "pd ''a'' [''x'']" "pd ''b'' [''y'']"]
  by (simp add: dedupe_eval pystr)

text \<open>
  Every signature has one value per permutation and every value is below \<open>2^32\<close>:
  the \<open>AND (2^32 - 1)\<close> mask keeps the 64-bit arithmetic within the 32-bit range.
\<close>

theorem minhash_tokens_bound:
  "length (minhash_tokens ps h ts) = length ps \<and> (\<forall>v \<in> set (minhash_tokens ps h ts). unat v < 2 ^ 32)"
  using le_max_hash_unat [OF perm_min_le] by (auto simp: minhash_tokens_Min)

theorem minhash_tokens_bound_witness:
  "length (minhash_tokens [(3, 7)] (\<lambda>t. 5) [''x'']) = 1 \<and>
   list_all (\<lambda>v. unat v < 2 ^ 32) (minhash_tokens [(3, 7)] (\<lambda>t. 5) [''x''])"
proof -
  have "length (minhash_tokens [(3, 7)] (\<lambda>t. 5) [''x'']) = length [(3::64 word, 7::64 word)] \<and>
        (\<forall>v \<in> set (minhash_tokens [(3, 7)] (\<lambda>t. 5) [''x'']). unat v < 2 ^ 32)"
    by (rule minhash_tokens_bound)
  then show ?thesis by (simp only: list_all_iff) simp
qed

text \<open>
  The permutation \<open>(a * hv + b) mod p\<close> is computed on 64-bit words, and the product
  wraps around: for \<open>a = 2^61 - 2\<close>, \<open>b = 5\<close> and \<open>hv = 2^32 - 1\<close> the library
  computes 13, where the formula on unbounded integers gives 5.
\<close>

theorem perm_hash_wraps:
  "perm_hash (2 ^ 61 - 2, 5) (2 ^ 32 - 1) = 13 \<and>
   ((2 ^ 61 - 2) * (2 ^ 32 - 1) + 5) mod (2 ^ 61 - 1) AND (2 ^ 32 - 1) = (5 :: int)"
  by (simp add: perm_hash_def mersenne_prime_def max_hash_def)

end
