(* ===== verification/Ranker.thy ===== *)
theory Ranker
  imports Indexer
begin

text \<open>
  The three scorers of \<^verbatim>\<open>src/src/ranker.py\<close>. \<open>BM25\<close> is the record \<open>bm25\<close>
  built by \<open>bm25_init\<close> (its \<open>__init__\<close>: \<open>avgdl\<close> is the mean of the
  \<open>length\<close> entries of \<open>doc_stats\<close>, divided by at least one); \<open>idf\<close> and
  \<open>score\<close> are \<open>bm25_idf\<close> and \<open>bm25_score\<close>, the loop over the query being
  \<open>score_loop\<close>. Python floats are reals; a float division by zero raises
  \<open>ZeroDivisionError\<close>, which happens in \<open>score\<close> exactly when \<open>avgdl\<close> is
  zero and the query is not empty. \<open>SemanticRanker\<close> holds the stored embeddings
  and the sentence encoder (a function the model takes as given); its score is the
  cosine of two vectors, \<open>KeyError\<close> for a document without embedding,
  \<open>ValueError\<close> when NumPy cannot align the vectors, and \<open>NaN\<close> when a norm is
  zero (NumPy returns \<open>nan\<close>; the model stops there). \<open>HybridRanker\<close> calls
  both scorers and mixes them with \<open>alpha\<close>.
\<close>

record bm25 =
  bm_index :: inverted_index
  bm_k1 :: real
  bm_b :: real
  bm_avgdl :: real
  bm_N :: nat

definition bm25_init :: "inverted_index \<Rightarrow> real \<Rightarrow> real \<Rightarrow> bm25" where
  "bm25_init idx k1v bv =
     \<lparr>bm_index = idx, bm_k1 = k1v, bm_b = bv,
      bm_avgdl = real (sum_list (map (st_length \<circ> snd) (doc_stats idx))) / real (max 1 (length (doc_stats idx))),
      bm_N = N idx\<rparr>"

definition bm25_idf :: "bm25 \<Rightarrow> string \<Rightarrow> real" where
  "bm25_idf bm t =
     (let df = real (dict_get (term_doc_freq (bm_index bm)) t 0)
      in ln (1 + (real (bm_N bm) - df + 0.5) / (df + 0.5)))"

text \<open>
  One round of \<open>for term in query\<close>: \<open>tf\<close>, \<open>idf\<close>, then the denominator,
  whose \<open>len(tokens) / self.avgdl\<close> raises when \<open>avgdl\<close> is zero; a zero
  denominator contributes nothing.
\<close>

fun score_loop :: "bm25 \<Rightarrow> string list \<Rightarrow> real \<Rightarrow> string list \<Rightarrow> py_error + real" where
  "score_loop bm ts acc [] = Inr acc"
| "score_loop bm ts acc (q # qs) =
     (let tf = real (count_list ts q); idf = bm25_idf bm q in
      if bm_avgdl bm = 0 then Inl ZeroDivisionError
      else let denom = tf + bm_k1 bm * (1 - bm_b bm + bm_b bm * real (length ts) / bm_avgdl bm) in
        score_loop bm ts (acc + (if denom \<noteq> 0 then idf * tf * (bm_k1 bm + 1) / denom else 0)) qs)"

definition bm25_score :: "bm25 \<Rightarrow> string list \<Rightarrow> docid \<Rightarrow> py_error + real" where
  "bm25_score bm query d =
     (case dict_index (doc_table (bm_index bm)) d of
        Inl e \<Rightarrow> Inl e
      | Inr doc \<Rightarrow> score_loop bm (tokens doc) 0 query)"

subsection \<open>Semantic and hybrid scorers\<close>

record semantic_ranker =
  sem_index :: inverted_index
  sem_embed :: "string \<Rightarrow> real list"
  embeddings :: "(docid, real list) pydict"

definition dot :: "real list \<Rightarrow> real list \<Rightarrow> real" where
  "dot u v = sum_list (map2 (*) u v)"

definition norm2 :: "real list \<Rightarrow> real" where
  "norm2 u = sqrt (dot u u)"

definition cosine :: "real list \<Rightarrow> real list \<Rightarrow> py_error + real" where
  "cosine u v =
     (if length u \<noteq> length v then Inl ValueError
      else if norm2 u * norm2 v = 0 then Inl FloatNaN
      else Inr (dot u v / (norm2 u * norm2 v)))"

definition semantic_score :: "semantic_ranker \<Rightarrow> string \<Rightarrow> docid \<Rightarrow> py_error + real" where
  "semantic_score sr q d =
     (let q_vec = sem_embed sr q in
      case dict_index (embeddings sr) d of
        Inl e \<Rightarrow> Inl e
      | Inr d_vec \<Rightarrow> cosine q_vec d_vec)"

record hybrid_ranker =
  hy_bm25 :: bm25
  hy_semantic :: semantic_ranker
  hy_alpha :: real

definition hybrid_score :: "hybrid_ranker \<Rightarrow> string list \<Rightarrow> docid \<Rightarrow> py_error + real" where
  "hybrid_score h query d =
     (case bm25_score (hy_bm25 h) query d of
        Inl e \<Rightarrow> Inl e
      | Inr bm25_s \<Rightarrow>
          (case semantic_score (hy_semantic h) (py_join '' '' query) d of
             Inl e \<Rightarrow> Inl e
           | Inr sem_s \<Rightarrow> Inr (hy_alpha h * bm25_s + (1 - hy_alpha h) * sem_s)))"

subsection \<open>Abstract BM25 weight\<close>

text \<open>The contribution of one query term, as the loop computes it when it does not raise.\<close>

definition term_weight :: "bm25 \<Rightarrow> nat \<Rightarrow> nat \<Rightarrow> string \<Rightarrow> real" where
  "term_weight bm dl tf q =
     (let denom = real tf + bm_k1 bm * (1 - bm_b bm + bm_b bm * real dl / bm_avgdl bm) in
      if denom \<noteq> 0 then bm25_idf bm q * real tf * (bm_k1 bm + 1) / denom else 0)"

text \<open>The BM25 score as the specification defines it, computed from the documents
  themselves: \<open>N\<close> documents, the document frequency of each term, and the mean token count.\<close>

definition bm25_ref_weight :: "real \<Rightarrow> real \<Rightarrow> (docid \<times> pdoc) list \<Rightarrow> pdoc \<Rightarrow> string \<Rightarrow> real" where
  "bm25_ref_weight k1 b docs doc q =
     (let n = length docs;
          avgdl = real (sum_list (map (\<lambda>dd. length (tokens (snd dd))) docs)) / real (max 1 n);
          tf = real (count_list (tokens doc) q);
          df = real (doc_freq docs q);
          idf = ln (1 + (real n - df + 0.5) / (df + 0.5));
          denom = tf + k1 * (1 - b + b * real (length (tokens doc)) / avgdl)
      in if denom \<noteq> 0 then idf * tf * (k1 + 1) / denom else 0)"

definition bm25_ref :: "real \<Rightarrow> real \<Rightarrow> (docid \<times> pdoc) list \<Rightarrow> string list \<Rightarrow> pdoc \<Rightarrow> real" where
  "bm25_ref k1 b docs query doc = sum_list (map (bm25_ref_weight k1 b docs doc) query)"

subsection \<open>A sample corpus\<close>

definition idx_ab :: inverted_index where
  "idx_ab = add_all [(''d1'', pd ''u1'' [''a'', ''b'']), (''d2'', pd ''u2'' [''a'', ''a''])] empty_index"

definition idx_empty_doc :: inverted_index where
  "idx_empty_doc = add_all [(''d0'', pd ''u0'' [])] empty_index"

definition hy_sample :: hybrid_ranker where
  "hy_sample = \<lparr>hy_bm25 = bm25_init idx_ab 1.5 0.75,
     hy_semantic = \<lparr>sem_index = idx_ab, sem_embed = (\<lambda>_. [1, 0]), embeddings = [(''d1'', [1, 1])]\<rparr>,
     hy_alpha = 0.7\<rparr>"

subsection \<open>The BM25 loop\<close>

lemma score_loop_sum:
  "bm_avgdl bm \<noteq> 0 \<Longrightarrow>
   score_loop bm ts acc qs = Inr (acc + sum_list (map (\<lambda>q. term_weight bm (length ts) (count_list ts q) q) qs))"
  by (induction qs arbitrary: acc) (simp_all add: term_weight_def Let_def algebra_simps)

lemma score_loop_unmatched:
  "\<forall>q\<in>set qs. q \<notin> set ts \<Longrightarrow> score_loop bm ts acc qs = Inr r \<Longrightarrow> r = acc"
  by (induction qs arbitrary: acc) (auto simp: Let_def count_list_0_iff split: if_splits)

lemma score_loop_zero_div:
  "bm_avgdl bm = 0 \<Longrightarrow> qs \<noteq> [] \<Longrightarrow> score_loop bm ts acc qs = Inl ZeroDivisionError"
  by (cases qs) simp_all

lemma idf_pos: "dict_get (term_doc_freq (bm_index bm)) t 0 \<le> bm_N bm \<Longrightarrow> 0 < bm25_idf bm t"
  unfolding bm25_idf_def Let_def
  by (intro ln_gt_zero) (simp add: field_simps)

lemma term_weight_frac:
  "term_weight bm dl tf q =
     (let k = bm_k1 bm * (1 - bm_b bm + bm_b bm * real dl / bm_avgdl bm);
          c = bm25_idf bm q * (bm_k1 bm + 1)
      in if real tf + k \<noteq> 0 then c * real tf / (real tf + k) else 0)"
  by (simp add: term_weight_def Let_def mult_ac)

lemma term_weight_mono:
  assumes "0 \<le> bm_k1 bm" "0 \<le> bm_b bm" "bm_b bm \<le> 1" "0 < bm_avgdl bm" "0 \<le> bm25_idf bm q"
    and "tf \<le> tf'"
  shows "term_weight bm dl tf q \<le> term_weight bm dl tf' q"
  unfolding term_weight_frac Let_def
proof (rule frac_mono)
  have "0 \<le> 1 - bm_b bm + bm_b bm * real dl / bm_avgdl bm"
    using assms by (simp add: add_nonneg_nonneg)
  then show "0 \<le> bm_k1 bm * (1 - bm_b bm + bm_b bm * real dl / bm_avgdl bm)"
    using assms by simp
  show "0 \<le> bm25_idf bm q * (bm_k1 bm + 1)" using assms by simp
  show "0 \<le> real tf" by simp
  show "real tf \<le> real tf'" using assms by simp
qed

lemma bm25_init_simps [simp]:
  "bm_index (bm25_init idx k b) = idx" "bm_k1 (bm25_init idx k b) = k" "bm_b (bm25_init idx k b) = b"
  "bm_N (bm25_init idx k b) = N idx"
  by (simp_all add: bm25_init_def)

text \<open>
  C1. BM25 is monotone in the term frequency: in a well-formed index, with
  \<open>k1 \<ge> 0\<close>, \<open>0 \<le> b \<le> 1\<close> and a positive average length, a document whose
  tokens contain every query term at least as often as another document of the same
  length scores at least as high, and neither score raises.
\<close>

theorem bm25_tf_monotone:
  assumes wf: "index_wf idx" and k: "0 \<le> k1v" and b: "0 \<le> bv" "bv \<le> 1"
    and avg: "0 < bm_avgdl (bm25_init idx k1v bv)"
    and d: "map_of (doc_table idx) d = Some doc" and d': "map_of (doc_table idx) d' = Some doc'"
    and len: "length (tokens doc) = length (tokens doc')"
    and tf: "\<forall>q \<in> set query. count_list (tokens doc) q \<le> count_list (tokens doc') q"
  shows "\<exists>s s'. bm25_score (bm25_init idx k1v bv) query d = Inr s \<and>
                bm25_score (bm25_init idx k1v bv) query d' = Inr s' \<and> s \<le> s'"
proof -
  let ?bm = "bm25_init idx k1v bv"
  have idf: "0 \<le> bm25_idf ?bm q" for q
    using idf_pos [of ?bm q] index_wf_df_le_N [OF wf, of q] by simp
  have "term_weight ?bm (length (tokens doc)) (count_list (tokens doc) q) q
        \<le> term_weight ?bm (length (tokens doc')) (count_list (tokens doc') q) q" if "q \<in> set query" for q
    using term_weight_mono [of ?bm q] k b avg idf tf that len by simp
  then have "sum_list (map (\<lambda>q. term_weight ?bm (length (tokens doc)) (count_list (tokens doc) q) q) query)
     \<le> sum_list (map (\<lambda>q. term_weight ?bm (length (tokens doc')) (count_list (tokens doc') q) q) query)"
    by (rule sum_list_mono_on)
  then show ?thesis
    using d d' avg by (simp add: bm25_score_def dict_index_def score_loop_sum)
qed

lemma idx_ab_wf: "index_wf idx_ab"
  unfolding idx_ab_def by (rule index_wf_add_all [OF index_wf_empty]) (simp add: empty_index_def)

theorem bm25_tf_monotone_witness:
  "\<exists>s s'. bm25_score (bm25_init idx_ab 1.5 0.75) [''a''] ''d1'' = Inr s \<and>
          bm25_score (bm25_init idx_ab 1.5 0.75) [''a''] ''d2'' = Inr s' \<and> s \<le> s'"
  apply (rule bm25_tf_monotone [where doc = "pd ''u1'' [''a'', ''b'']" and doc' = "pd ''u2'' [''a'', ''a'']"])
  apply (rule idx_ab_wf)
  apply (simp_all add: idx_ab_def bm25_init_def empty_index_def add_document_def pd_def Let_def token_positions_def add_posting_def)
  done

lemma bm25_avgdl_zero_iff:
  "bm_avgdl (bm25_init idx k b) = 0 \<longleftrightarrow> (\<forall>ds \<in> set (doc_stats idx). st_length (snd ds) = 0)"
  by (auto simp: bm25_init_def comp_def sum_list_eq_0_iff)

text \<open>
  C24. \<open>BM25.score\<close> raises \<open>ZeroDivisionError\<close> on a document of the index exactly
  when the query is not empty and the average document length is zero, that is, when
  every indexed document has an empty token list: the \<open>max(1, ...)\<close> of
  \<open>__init__\<close> guards the document count, not the length.
\<close>

theorem bm25_score_zero_division:
  assumes "map_of (doc_table idx) d = Some doc"
  shows "bm25_score (bm25_init idx k b) query d = Inl ZeroDivisionError \<longleftrightarrow>
           query \<noteq> [] \<and> (\<forall>ds \<in> set (doc_stats idx). st_length (snd ds) = 0)"
proof (cases "bm_avgdl (bm25_init idx k b) = 0")
  case True
  moreover from True have "\<forall>ds \<in> set (doc_stats idx). st_length (snd ds) = 0"
    by (simp add: bm25_avgdl_zero_iff)
  ultimately show ?thesis
    using assms by (cases query) (simp_all add: bm25_score_def dict_index_def)
next
  case False
  moreover from False have "\<not> (\<forall>ds \<in> set (doc_stats idx). st_length (snd ds) = 0)"
    by (simp add: bm25_avgdl_zero_iff)
  ultimately show ?thesis
    using assms by (simp add: bm25_score_def dict_index_def score_loop_sum)
qed

theorem bm25_score_zero_division_witness:
  "bm25_score (bm25_init idx_empty_doc 1.5 0.75) [''a''] ''d0'' = Inl ZeroDivisionError"
proof -
  have doc: "map_of (doc_table idx_empty_doc) ''d0'' = Some (pd ''u0'' [])"
    by (simp add: idx_empty_doc_def empty_index_def)
  have "\<forall>ds \<in> set (doc_stats idx_empty_doc). st_length (snd ds) = 0"
    by (simp add: idx_empty_doc_def empty_index_def pd_def)
  then show ?thesis
    using bm25_score_zero_division [OF doc, of "1.5" "0.75" "[''a'']"] by simp
qed

text \<open>
  C35. \<open>math.log\<close> in \<open>idf\<close> never sees a non-positive argument, and in a well-formed
  index (document frequency at most \<open>N\<close>) the inverse document frequency of every
  term is positive.
\<close>

theorem bm25_idf_positive:
  assumes "index_wf idx"
  shows "0 < 1 + (real (N idx) - real (dict_get (term_doc_freq idx) t 0) + 0.5) /
                 (real (dict_get (term_doc_freq idx) t 0) + 0.5) \<and>
         0 < bm25_idf (bm25_init idx k b) t"
proof
  show "0 < 1 + (real (N idx) - real (dict_get (term_doc_freq idx) t 0) + 0.5) /
                 (real (dict_get (term_doc_freq idx) t 0) + 0.5)"
    by (simp add: field_simps)
  show "0 < bm25_idf (bm25_init idx k b) t"
    using idf_pos index_wf_df_le_N [OF assms] by simp
qed

theorem bm25_idf_positive_witness:
  "0 < 1 + (real (N idx_ab) - real (dict_get (term_doc_freq idx_ab) ''b'' 0) + 0.5) /
           (real (dict_get (term_doc_freq idx_ab) ''b'' 0) + 0.5) \<and>
   0 < bm25_idf (bm25_init idx_ab 1.5 0.75) ''b''"
  by (rule bm25_idf_positive [OF idx_ab_wf])

lemma semantic_score_eq:
  "semantic_score sr q d =
     (case map_of (embeddings sr) d of None \<Rightarrow> Inl KeyError | Some v \<Rightarrow> cosine (sem_embed sr q) v)"
  by (simp add: semantic_score_def dict_index_def split: option.splits)

lemma hybrid_score_eq:
  assumes "map_of (doc_table (bm_index (hy_bm25 h))) d = Some doc" "bm_avgdl (hy_bm25 h) \<noteq> 0"
  shows "hybrid_score h q d =
     (case map_of (embeddings (hy_semantic h)) d of
        None \<Rightarrow> Inl KeyError
      | Some v \<Rightarrow>
          (case cosine (sem_embed (hy_semantic h) (py_join '' '' q)) v of
             Inl e \<Rightarrow> Inl e
           | Inr c \<Rightarrow> Inr (hy_alpha h *
                (\<Sum>t \<leftarrow> q. term_weight (hy_bm25 h) (length (tokens doc)) (count_list (tokens doc) t) t)
                + (1 - hy_alpha h) * c)))"
  using assms
  by (simp add: hybrid_score_def bm25_score_def dict_index_def score_loop_sum semantic_score_eq
      split: option.splits sum.splits)

text \<open>
  C22. Hybrid fusion: on an indexed document, with a non-zero average length, the hybrid
  score is exactly \<open>alpha\<close> times the BM25 sum plus \<open>1 - alpha\<close> times the cosine
  of the query embedding (of the query tokens joined by spaces) with the stored vector,
  when that vector exists and the cosine is defined.
\<close>

theorem hybrid_score_fusion:
  assumes "map_of (doc_table (bm_index (hy_bm25 h))) d = Some doc" "bm_avgdl (hy_bm25 h) \<noteq> 0"
    and "map_of (embeddings (hy_semantic h)) d = Some v"
    and "qv = sem_embed (hy_semantic h) (py_join '' '' q)"
    and "length qv = length v" "norm2 qv \<noteq> 0" "norm2 v \<noteq> 0"
  shows "hybrid_score h q d =
           Inr (hy_alpha h * (\<Sum>t \<leftarrow> q. term_weight (hy_bm25 h) (length (tokens doc)) (count_list (tokens doc) t) t)
                + (1 - hy_alpha h) * (dot qv v / (norm2 qv * norm2 v)))"
  using assms by (simp add: hybrid_score_eq cosine_def)

theorem hybrid_score_fusion_witness:
  "hybrid_score hy_sample [''a''] ''d1'' =
     Inr (hy_alpha hy_sample * (\<Sum>t \<leftarrow> [''a'']. term_weight (hy_bm25 hy_sample)
              (length (tokens (pd ''u1'' [''a'', ''b'']))) (count_list (tokens (pd ''u1'' [''a'', ''b''])) t) t)
          + (1 - hy_alpha hy_sample) * (dot [1, 0] [1, 1] / (norm2 [1, 0] * norm2 [1, 1])))"
  by (rule hybrid_score_fusion)
     (simp_all add: hy_sample_def idx_ab_def empty_index_def bm25_init_def pd_def dot_def norm2_def)

text \<open>
  C23. A missing embedding is surfaced, not zeroed: hybrid scoring of an indexed
  document that has no stored vector raises \<open>KeyError\<close> although its BM25 score is
  defined.
\<close>

theorem hybrid_missing_embedding:
  assumes "map_of (doc_table (bm_index (hy_bm25 h))) d = Some doc" "bm_avgdl (hy_bm25 h) \<noteq> 0"
    and "map_of (embeddings (hy_semantic h)) d = None"
  shows "(\<exists>s. bm25_score (hy_bm25 h) q d = Inr s) \<and> hybrid_score h q d = Inl KeyError"
  using assms by (simp add: hybrid_score_eq bm25_score_def dict_index_def score_loop_sum)

theorem hybrid_missing_embedding_witness:
  "(\<exists>s. bm25_score (bm25_init idx_ab 1.5 0.75) [''a''] ''d2'' = Inr s) \<and> hybrid_score hy_sample [''a''] ''d2'' = Inl KeyError"
proof -
  have "(\<exists>s. bm25_score (hy_bm25 hy_sample) [''a''] ''d2'' = Inr s) \<and> hybrid_score hy_sample [''a''] ''d2'' = Inl KeyError"
    by (rule hybrid_missing_embedding)
       (simp_all add: hy_sample_def idx_ab_def empty_index_def bm25_init_def pd_def)
  then show ?thesis by (simp add: hy_sample_def)
qed

lemma bm25_init_avgdl:
  assumes "distinct (map fst docs)"
  shows "bm_avgdl (bm25_init (add_all docs empty_index) k1 b) =
           real (sum_list (map (\<lambda>dd. length (tokens (snd dd))) docs)) / real (max 1 (length docs))"
  using doc_stats_add_all [of empty_index docs] assms
  by (simp add: bm25_init_def empty_index_def comp_def split_def)

text \<open>
  C2. The scorer computes the BM25 score of the specification: for an index built from a
  corpus with distinct document ids, not all of them empty, the score of a document of the
  corpus is the sum over the query terms of \<open>idf * tf * (k1+1) / (tf + k1*(1 - b + b*docLen/avgdl))\<close>,
  with \<open>N\<close>, the document frequencies and \<open>avgdl\<close> those of the corpus, although
  \<open>BM25\<close> reads them from the index's \<open>N\<close>, \<open>term_doc_freq\<close> and \<open>doc_stats\<close>.
\<close>

theorem bm25_matches_reference:
  assumes dist: "distinct (map fst docs)" and d: "(d, doc) \<in> set docs"
    and nonempty: "\<exists>dd\<in>set docs. tokens (snd dd) \<noteq> []"
  shows "bm25_score (bm25_init (add_all docs empty_index) k1 b) query d = Inr (bm25_ref k1 b docs query doc)"
proof -
  let ?bm = "bm25_init (add_all docs empty_index) k1 b"
  have "sum_list (map (\<lambda>dd. length (tokens (snd dd))) docs) \<noteq> 0"
    using nonempty by (auto simp: sum_list_eq_0_iff)
  then have avg: "bm_avgdl ?bm \<noteq> 0" using bm25_init_avgdl [OF dist] by simp
  have "doc_table (add_all docs empty_index) = docs"
    using doc_table_add_all [of empty_index docs] dist by (simp add: empty_index_def)
  then have look: "dict_index (doc_table (bm_index ?bm)) d = Inr doc"
    using map_of_is_SomeI [OF dist d] by (simp add: bm25_init_def dict_index_def)
  have idf: "bm25_idf ?bm q = ln (1 + (real (length docs) - real (doc_freq docs q) + 0.5) / (real (doc_freq docs q) + 0.5))"
    for q using add_all_empty [of docs q] by (simp add: bm25_idf_def bm25_init_def Let_def)
  have tw: "term_weight ?bm (length (tokens doc)) (count_list (tokens doc) q) q = bm25_ref_weight k1 b docs doc q" for q
    unfolding term_weight_def bm25_ref_weight_def idf bm25_init_avgdl [OF dist] by (simp add: Let_def)
  have "score_loop ?bm (tokens doc) 0 query = Inr (bm25_ref k1 b docs query doc)"
    using score_loop_sum [OF avg, of "tokens doc" 0 query] tw by (simp add: bm25_ref_def)
  then show ?thesis using look by (simp add: bm25_score_def)
qed

theorem bm25_matches_reference_witness:
  "bm25_score (bm25_init (add_all [(''d1'', pd ''u1'' [''a'', ''b'']), (''d2'', pd ''u2'' [''a'', ''a''])] empty_index) 1.5 0.75)
     [''a''] ''d1'' =
   Inr (bm25_ref 1.5 0.75 [(''d1'', pd ''u1'' [''a'', ''b'']), (''d2'', pd ''u2'' [''a'', ''a''])] [''a''] (pd ''u1'' [''a'', ''b'']))"
  by (rule bm25_matches_reference) (simp_all add: pd_def)

end
