(* ===== verification/Api.thy ===== *)
theory Api
  imports Ranker "HOL-Library.Product_Lexorder"
begin

text \<open>
  The search service of \<^verbatim>\<open>src/src/api.py\<close>. At import time the module loads the index
  snapshot into a fresh \<open>InvertedIndex\<close> and builds the \<open>BM25\<close> scorer
  (\<open>api_init\<close>); the semantic and hybrid rankers are module globals created on the
  first request that asks for semantic scoring (\<open>get_semantic\<close>), which is when the
  embedding snapshot is read. The state of the service is therefore the record
  \<open>api_state\<close>, and the handler \<open>search\<close> returns the state after the request
  together with the response or the exception it raises. The sentence encoder and the
  contents of the embedding snapshot are inputs (\<open>api_env\<close>). The \<open>/search\<close>
  handler scores every document of \<open>doc_table\<close> in insertion order (skipping those
  excluded by the \<open>site\<close> filter), sorts the \<open>(score, doc_id)\<close> pairs with
  \<open>reverse=True\<close> (lexicographic on real scores and code-point strings), slices them
  with \<open>[:topK]\<close> and builds one hit per pair. \<open>dateRange\<close> is accepted and
  never read.
\<close>

record search_req =
  query :: string
  topK :: int
  useSemantic :: bool
  site :: "string option"
  dateRange :: "string option"

record hit =
  hit_title :: "string option"
  hit_url :: string
  hit_snippet :: string
  hit_score :: real
  hit_highlights :: "string list"

record api_state =
  api_index :: inverted_index
  api_bm25 :: bm25
  semantic :: "semantic_ranker option"
  hybrid :: "hybrid_ranker option"

record api_env =
  encoder :: "string \<Rightarrow> real list"
  embeddings_file :: "(docid, real list) pydict"

text \<open>Module start-up: \<open>index = InvertedIndex()\<close>, the five attributes from the pickle,
  \<open>bm25 = BM25(index)\<close>, \<open>semantic = hybrid = None\<close>.\<close>

definition api_init :: "index_snapshot \<Rightarrow> api_state" where
  "api_init snap =
     (let idx = index_load empty_index snap
      in \<lparr>api_index = idx, api_bm25 = bm25_init idx (3 / 2) (3 / 4), semantic = None, hybrid = None\<rparr>)"

definition get_semantic :: "api_env \<Rightarrow> api_state \<Rightarrow> api_state \<times> semantic_ranker option \<times> hybrid_ranker option" where
  "get_semantic env st =
     (if semantic st = None then
        (let sem = \<lparr>sem_index = api_index st, sem_embed = encoder env, embeddings = embeddings_file env\<rparr>;
             hy = \<lparr>hy_bm25 = api_bm25 st, hy_semantic = sem, hy_alpha = 7 / 10\<rparr>
         in (st\<lparr>semantic := Some sem, hybrid := Some hy\<rparr>, Some sem, Some hy))
      else (st, semantic st, hybrid st))"

text \<open>\<open>if req.site and req.site not in index.doc_table[doc_id]['url']\<close>: the table is
  only read when the filter is a non-empty string.\<close>

definition site_excluded :: "string option \<Rightarrow> (docid, pdoc) pydict \<Rightarrow> docid \<Rightarrow> py_error + bool" where
  "site_excluded s tbl d =
     (case s of
        None \<Rightarrow> Inr False
      | Some x \<Rightarrow>
          if x = [] then Inr False
          else (case dict_index tbl d of Inl e \<Rightarrow> Inl e | Inr doc \<Rightarrow> Inr (\<not> sublist x (url doc))))"

definition doc_score :: "bool \<Rightarrow> bm25 \<Rightarrow> hybrid_ranker option \<Rightarrow> string list \<Rightarrow> docid \<Rightarrow> py_error + real" where
  "doc_score use_sem bm hy q d =
     (if use_sem then (case hy of None \<Rightarrow> Inl AttributeError | Some h \<Rightarrow> hybrid_score h q d)
      else bm25_score bm q d)"

fun score_candidates :: "string option \<Rightarrow> (docid, pdoc) pydict \<Rightarrow> (docid \<Rightarrow> py_error + real) \<Rightarrow>
    docid list \<Rightarrow> (real \<times> docid) list \<Rightarrow> py_error + (real \<times> docid) list" where
  "score_candidates s tbl sc [] acc = Inr acc"
| "score_candidates s tbl sc (d # ds) acc =
     (case site_excluded s tbl d of
        Inl e \<Rightarrow> Inl e
      | Inr True \<Rightarrow> score_candidates s tbl sc ds acc
      | Inr False \<Rightarrow>
          (case sc d of Inl e \<Rightarrow> Inl e | Inr x \<Rightarrow> score_candidates s tbl sc ds (acc @ [(x, d)])))"

definition make_hit :: "(docid, pdoc) pydict \<Rightarrow> string list \<Rightarrow> real \<times> docid \<Rightarrow> py_error + hit" where
  "make_hit tbl q sd =
     (case sd of (x, d) \<Rightarrow>
        case dict_index tbl d of
          Inl e \<Rightarrow> Inl e
        | Inr doc \<Rightarrow>
            Inr \<lparr>hit_title = title doc, hit_url = url doc, hit_snippet = take 300 (body doc),
                 hit_score = x, hit_highlights = filter (\<lambda>t. t \<in> set (tokens doc)) q\<rparr>)"

fun hits_loop :: "(docid, pdoc) pydict \<Rightarrow> string list \<Rightarrow> (real \<times> docid) list \<Rightarrow> hit list \<Rightarrow> py_error + hit list" where
  "hits_loop tbl q [] acc = Inr acc"
| "hits_loop tbl q (c # cs) acc =
     (case make_hit tbl q c of Inl e \<Rightarrow> Inl e | Inr h \<Rightarrow> hits_loop tbl q cs (acc @ [h]))"

definition search :: "api_env \<Rightarrow> api_state \<Rightarrow> search_req \<Rightarrow> api_state \<times> (py_error + hit list)" where
  "search env st req =
     (let qt = py_split_ws (py_lower (query req));
          (st', hy) = (if useSemantic req then (case get_semantic env st of (s, _, h) \<Rightarrow> (s, h)) else (st, None));
          tbl = doc_table (api_index st')
      in case score_candidates (site req) tbl (doc_score (useSemantic req) (api_bm25 st') hy qt) (dict_keys tbl) [] of
           Inl e \<Rightarrow> (st', Inl e)
         | Inr cands \<Rightarrow> (st', hits_loop tbl qt (py_take (topK req) (rev (sort cands))) []))"


text \<open>The globals \<open>semantic\<close> and \<open>hybrid\<close> are set together.\<close>

definition api_inv :: "api_state \<Rightarrow> bool" where
  "api_inv st \<longleftrightarrow> (semantic st = None \<longleftrightarrow> hybrid st = None)"

text \<open>The service state fits the embedding snapshot: the BM25 scorer reads the served index,
  every document of the table has an embedding, and a hybrid ranker, once created, pairs that
  scorer with the snapshot.\<close>

definition api_ok :: "api_env \<Rightarrow> api_state \<Rightarrow> bool" where
  "api_ok env st \<longleftrightarrow>
     bm_index (api_bm25 st) = api_index st \<and>
     fst ` set (doc_table (api_index st)) \<subseteq> fst ` set (embeddings_file env) \<and>
     (case hybrid st of
        None \<Rightarrow> semantic st = None
      | Some h \<Rightarrow> semantic st \<noteq> None \<and> hy_bm25 h = api_bm25 st \<and> embeddings (hy_semantic h) = embeddings_file env)"

text \<open>A three-document index and requests on it, for the scenarios.\<close>

definition idx3 :: inverted_index where
  "idx3 = add_all [(''d1'', pd ''http://x.org/1'' [''a'', ''b'', ''a'']), (''d2'', pd ''http://example.com/2'' [''b'', ''c'']),
                   (''d3'', pd ''http://x.org/3'' [''a'', ''a'', ''a''])] empty_index"

definition env0 :: api_env where "env0 = \<lparr>encoder = (\<lambda>s. [1]), embeddings_file = []\<rparr>"

definition st3 :: api_state where
  "st3 = api_init (index_save idx3)"

definition req3 :: "int \<Rightarrow> string option \<Rightarrow> bool \<Rightarrow> search_req" where
  "req3 k s u = \<lparr>query = ''A'', topK = k, useSemantic = u, site = s, dateRange = None\<rparr>"

subsection \<open>Lemmas\<close>
lemma score_candidates_Inr:
  "score_candidates s tbl sc ds acc = Inr cands \<Longrightarrow> c \<in> set cands \<Longrightarrow>
   c \<in> set acc \<or> (snd c \<in> set ds \<and> sc (snd c) = Inr (fst c) \<and> site_excluded s tbl (snd c) = Inr False)"
proof (induction s tbl sc ds acc rule: score_candidates.induct)
  case (2 s tbl sc d ds acc)
  show ?case
  proof (cases "site_excluded s tbl d")
    case (Inl e)
    with 2(3) show ?thesis by simp
  next
    case (Inr b)
    show ?thesis
    proof (cases b)
      case True
      with Inr 2(1) [of b] 2(3,4) show ?thesis by auto
    next
      case False
      with Inr 2(3) obtain x where x: "sc d = Inr x" and r: "score_candidates s tbl sc ds (acc @ [(x, d)]) = Inr cands"
        by (auto split: sum.splits)
      with Inr False 2(2) [of b x] 2(4) show ?thesis by auto
    qed
  qed
qed simp

lemma hits_loop_Inr:
  "hits_loop tbl q cs acc = Inr hs \<Longrightarrow> \<exists>hs'. hs = acc @ hs' \<and> list_all2 (\<lambda>c h. make_hit tbl q c = Inr h) cs hs'"
proof (induction tbl q cs acc rule: hits_loop.induct)
  case (2 tbl q c cs acc)
  then obtain h where h: "make_hit tbl q c = Inr h" and r: "hits_loop tbl q cs (acc @ [h]) = Inr hs"
    by (auto split: sum.splits)
  with 2(1) obtain hs' where "hs = (acc @ [h]) @ hs'" "list_all2 (\<lambda>c h. make_hit tbl q c = Inr h) cs hs'"
    by blast
  with h show ?case by auto
qed simp

lemma make_hit_Inr:
  "make_hit tbl q c = Inr h \<Longrightarrow>
   hit_score h = fst c \<and> (\<exists>doc. map_of tbl (snd c) = Some doc \<and> hit_url h = url doc)"
  by (auto simp: make_hit_def dict_index_Inr_iff split: prod.splits sum.splits)

lemma sorted_desc_fst: "sorted_wrt (\<ge>) (xs :: ('a::linorder \<times> 'b::linorder) list) \<Longrightarrow> sorted_wrt (\<ge>) (map fst xs)"
  by (induction xs) (auto simp: less_eq_prod_def)

lemma py_take_prefix: "prefix (py_take k xs) xs"
  by (cases "0 \<le> k") (simp_all add: py_take_neg take_is_prefix)

lemma search_cands:
  "search env st req = (st', Inr hs) \<Longrightarrow>
   \<exists>cands hy. score_candidates (site req) (doc_table (api_index st')) (doc_score (useSemantic req) (api_bm25 st') hy
                 (py_split_ws (py_lower (query req)))) (dict_keys (doc_table (api_index st'))) [] = Inr cands \<and>
      hits_loop (doc_table (api_index st')) (py_split_ws (py_lower (query req))) (py_take (topK req) (rev (sort cands))) [] = Inr hs"
  by (auto simp: search_def Let_def split: if_splits prod.splits sum.splits)

lemma list_all2_make_hit_scores:
  "list_all2 (\<lambda>c h. make_hit tbl q c = Inr h) cs hs \<Longrightarrow> map hit_score hs = map fst cs"
  by (induction rule: list_all2_induct) (simp_all add: make_hit_Inr)

lemma list_all2_ex_left: "list_all2 P xs ys \<Longrightarrow> y \<in> set ys \<Longrightarrow> \<exists>x \<in> set xs. P x y"
  by (induction rule: list_all2_induct) auto

lemma py_take_length: "0 \<le> k \<Longrightarrow> length (py_take k xs) \<le> nat k"
  by simp

lemma sorted_desc_py_take:
  "sorted_wrt (\<ge>) (map fst (py_take k (rev (sort (xs :: ('a::linorder \<times> 'b::linorder) list)))))"
proof -
  have "sorted_wrt (\<ge>) (rev (sort xs))" by (simp add: sorted_wrt_rev)
  moreover obtain zs where "rev (sort xs) = py_take k (rev (sort xs)) @ zs"
    using py_take_prefix [of k "rev (sort xs)"] by (auto simp: prefix_def)
  ultimately have "sorted_wrt (\<ge>) (py_take k (rev (sort xs)))"
    by (metis sorted_wrt_append)
  then show ?thesis by (rule sorted_desc_fst)
qed

lemma search_hits:
  assumes "search env st req = (st', Inr hs)"
  obtains cands hy where
    "score_candidates (site req) (doc_table (api_index st')) (doc_score (useSemantic req) (api_bm25 st') hy
        (py_split_ws (py_lower (query req)))) (dict_keys (doc_table (api_index st'))) [] = Inr cands"
    "list_all2 (\<lambda>c h. make_hit (doc_table (api_index st')) (py_split_ws (py_lower (query req))) c = Inr h)
        (py_take (topK req) (rev (sort cands))) hs"
  using search_cands [OF assms] hits_loop_Inr by fastforce

lemma dict_index_Inl: "dict_index d k = Inl e \<Longrightarrow> e = KeyError"
  by (simp add: dict_index_def split: option.splits)

lemma score_loop_Inl: "score_loop bm ts acc qs = Inl e \<Longrightarrow> e = ZeroDivisionError"
  by (induction bm ts acc qs rule: score_loop.induct) (auto simp: Let_def split: if_splits)

lemma hybrid_score_Inl: "hybrid_score h q d = Inl e \<Longrightarrow> e \<noteq> AttributeError"
  by (auto simp: hybrid_score_def bm25_score_def semantic_score_def cosine_def Let_def
           dest: dict_index_Inl score_loop_Inl split: sum.splits if_splits)

lemma bm25_score_Inl: "bm25_score bm q d = Inl e \<Longrightarrow> e \<noteq> AttributeError"
  by (auto simp: bm25_score_def dest: dict_index_Inl score_loop_Inl split: sum.splits)

lemma score_candidates_Inl:
  "score_candidates s tbl sc ds acc = Inl e \<Longrightarrow> e = KeyError \<or> (\<exists>d. sc d = Inl e)"
  by (induction s tbl sc ds acc rule: score_candidates.induct)
     (auto simp: site_excluded_def dest: dict_index_Inl split: sum.splits bool.splits option.splits if_splits)

lemma hits_loop_Inl: "hits_loop tbl q cs acc = Inl e \<Longrightarrow> e = KeyError"
  by (induction tbl q cs acc rule: hits_loop.induct)
     (auto simp: make_hit_def dest: dict_index_Inl split: sum.splits prod.splits)

lemma score_candidates_all:
  "score_candidates None tbl sc ds acc = Inr cands \<Longrightarrow>
   \<exists>xs. cands = acc @ xs \<and> list_all2 (\<lambda>d c. snd c = d \<and> sc d = Inr (fst c)) ds xs"
proof (induction "None :: string option" tbl sc ds acc rule: score_candidates.induct)
  case (2 tbl sc d ds acc)
  then obtain x where x: "sc d = Inr x" and rest: "score_candidates None tbl sc ds (acc @ [(x, d)]) = Inr cands"
    by (auto simp: site_excluded_def split: sum.splits)
  have se: "site_excluded None tbl d = Inr False" by (simp add: site_excluded_def)
  obtain xs where "cands = (acc @ [(x, d)]) @ xs" "list_all2 (\<lambda>d c. snd c = d \<and> sc d = Inr (fst c)) ds xs"
    using 2(2) [OF se] x rest by auto
  then show ?case using x by (intro exI [of _ "(x, d) # xs"]) simp
qed simp

lemma list_all2_ex_right: "list_all2 P xs ys \<Longrightarrow> x \<in> set xs \<Longrightarrow> \<exists>y \<in> set ys. P x y"
  by (induction rule: list_all2_induct) auto

text \<open>A lexical search whose query tokens occur in no document scores every document 0
  and highlights nothing: the query is only lower-cased and split, never lemmatised.\<close>

lemma search_unmatched_terms:
  assumes run: "search env st req = (st', Inr hs)" and lex: "\<not> useSemantic req"
    and bm: "bm_index (api_bm25 st) = api_index st"
    and none: "\<forall>(d, doc)\<in>set (doc_table (api_index st)). \<forall>t\<in>set (py_split_ws (py_lower (query req))). t \<notin> set (tokens doc)"
  shows "\<forall>h\<in>set hs. hit_score h = 0 \<and> hit_highlights h = []"
proof
  let ?q = "py_split_ws (py_lower (query req))"
  let ?tbl = "doc_table (api_index st)"
  fix h assume h: "h \<in> set hs"
  have st': "st' = st" using run lex by (simp add: search_def Let_def split: sum.splits)
  obtain cands hy where sc: "score_candidates (site req) ?tbl (doc_score False (api_bm25 st) hy ?q) (dict_keys ?tbl) [] = Inr cands"
    and hits: "list_all2 (\<lambda>c h. make_hit ?tbl ?q c = Inr h) (py_take (topK req) (rev (sort cands))) hs"
    using run lex st' by (auto elim: search_hits)
  obtain c where c: "c \<in> set (py_take (topK req) (rev (sort cands)))" and mh: "make_hit ?tbl ?q c = Inr h"
    using list_all2_ex_left [OF hits h] by blast
  have "c \<in> set cands" using c set_mono_prefix [OF py_take_prefix] by fastforce
  then have "bm25_score (api_bm25 st) ?q (snd c) = Inr (fst c)"
    using score_candidates_Inr [OF sc] by (simp add: doc_score_def)
  then obtain doc where doc: "map_of ?tbl (snd c) = Some doc" and "score_loop (api_bm25 st) (tokens doc) 0 ?q = Inr (fst c)"
    using bm by (auto simp: bm25_score_def dict_index_def split: option.splits)
  moreover have dis: "\<forall>t\<in>set ?q. t \<notin> set (tokens doc)" using none map_of_SomeD [OF doc] by fastforce
  ultimately have "fst c = 0" using score_loop_unmatched by metis
  moreover have "hit_highlights h = []" using mh doc dis
    by (auto simp: make_hit_def dict_index_def filter_empty_conv split: prod.splits)
  ultimately show "hit_score h = 0 \<and> hit_highlights h = []" using make_hit_Inr [OF mh] by simp
qed

text \<open>
  C14. The hits are in descending order of score, and there are at most \<open>topK\<close> of them when
  \<open>topK\<close> is not negative.
\<close>

theorem search_hits_sorted:
  assumes "search env st req = (st', Inr hs)"
  shows "sorted_wrt (\<ge>) (map hit_score hs) \<and> (0 \<le> topK req \<longrightarrow> length hs \<le> nat (topK req))"
proof -
  obtain cands hy where
    l: "list_all2 (\<lambda>c h. make_hit (doc_table (api_index st')) (py_split_ws (py_lower (query req))) c = Inr h)
        (py_take (topK req) (rev (sort cands))) hs"
    using search_hits [OF assms] by blast
  have "map hit_score hs = map fst (py_take (topK req) (rev (sort cands)))"
    using list_all2_make_hit_scores [OF l] .
  moreover have "length hs = length (py_take (topK req) (rev (sort cands)))"
    using l by (simp add: list_all2_lengthD)
  ultimately show ?thesis by (simp add: sorted_desc_py_take)
qed

text \<open>
  C15. The \<open>site\<close> filter: every hit's URL contains the requested substring.
\<close>

theorem search_site_filter:
  assumes "search env st req = (st', Inr hs)" and "site req = Some x"
  shows "\<forall>h \<in> set hs. sublist x (hit_url h)"
proof
  fix h assume h: "h \<in> set hs"
  let ?tbl = "doc_table (api_index st')" and ?q = "py_split_ws (py_lower (query req))"
  obtain cands hy where
    sc: "score_candidates (site req) ?tbl (doc_score (useSemantic req) (api_bm25 st') hy ?q) (dict_keys ?tbl) [] = Inr cands"
    and l: "list_all2 (\<lambda>c h. make_hit ?tbl ?q c = Inr h) (py_take (topK req) (rev (sort cands))) hs"
    using search_hits [OF assms(1)] by blast
  obtain c where c: "c \<in> set (py_take (topK req) (rev (sort cands)))" and mh: "make_hit ?tbl ?q c = Inr h"
    using list_all2_ex_left [OF l h] by blast
  have "c \<in> set cands" using c set_mono_prefix [OF py_take_prefix] by fastforce
  then have "site_excluded (site req) ?tbl (snd c) = Inr False"
    using score_candidates_Inr [OF sc] by fastforce
  moreover obtain doc where "map_of ?tbl (snd c) = Some doc" "hit_url h = url doc"
    using make_hit_Inr [OF mh] by blast
  ultimately show "sublist x (hit_url h)"
    using assms(2) by (auto simp: site_excluded_def dict_index_def split: if_splits)
qed

lemma search_unfold:
  "search env st req =
     (let st' = (if useSemantic req then fst (get_semantic env st) else st);
          hy = (if useSemantic req then snd (snd (get_semantic env st)) else None);
          qt = py_split_ws (py_lower (query req));
          tbl = doc_table (api_index st')
      in case score_candidates (site req) tbl (doc_score (useSemantic req) (api_bm25 st') hy qt) (dict_keys tbl) [] of
           Inl e \<Rightarrow> (st', Inl e)
         | Inr cands \<Rightarrow> (st', hits_loop tbl qt (py_take (topK req) (rev (sort cands))) []))"
  by (cases "get_semantic env st") (auto simp: search_def Let_def split: sum.split)

text \<open>
  C25. The lazy start of the semantic ranker: the two globals \<open>semantic\<close> and \<open>hybrid\<close>
  are set together, so \<open>hybrid_ranker.score\<close> is never called on \<open>None\<close>; a request
  without semantic scoring, or any request once the rankers exist, leaves the state unchanged,
  and after a semantic request the rankers exist.
\<close>

theorem search_lazy_semantic:
  assumes "api_inv st" and "search env st req = (st', r)"
  shows "api_inv st' \<and> r \<noteq> Inl AttributeError \<and>
         ((\<not> useSemantic req \<or> semantic st \<noteq> None) \<longrightarrow> st' = st) \<and>
         (useSemantic req \<longrightarrow> semantic st' \<noteq> None)"
proof -
  let ?q = "py_split_ws (py_lower (query req))"
  define hy where "hy = (if useSemantic req then snd (snd (get_semantic env st)) else None)"
  have st': "st' = (if useSemantic req then fst (get_semantic env st) else st)"
    using assms(2) arg_cong [OF search_unfold [of env st req], of fst]
    by (simp add: Let_def split: sum.splits)
  have r: "r = (case score_candidates (site req) (doc_table (api_index st')) (doc_score (useSemantic req) (api_bm25 st') hy ?q)
                   (dict_keys (doc_table (api_index st'))) [] of
                 Inl e \<Rightarrow> Inl e
               | Inr cands \<Rightarrow> hits_loop (doc_table (api_index st')) ?q (py_take (topK req) (rev (sort cands))) [])"
    using assms(2) arg_cong [OF search_unfold [of env st req], of snd] st'
    by (simp add: Let_def hy_def split: sum.splits)
  have inv: "api_inv st'" and some: "useSemantic req \<longrightarrow> hy \<noteq> None"
    using assms(1) st' hy_def by (auto simp: api_inv_def get_semantic_def Let_def)
  have "doc_score (useSemantic req) (api_bm25 st') hy ?q d \<noteq> Inl AttributeError" for d
    using some unfolding doc_score_def by (auto split: option.splits dest: hybrid_score_Inl bm25_score_Inl)
  then have "r \<noteq> Inl AttributeError"
  proof (cases "score_candidates (site req) (doc_table (api_index st')) (doc_score (useSemantic req) (api_bm25 st') hy ?q)
                   (dict_keys (doc_table (api_index st'))) []")
    case (Inl e)
    then have "e = KeyError \<or> (\<exists>d. doc_score (useSemantic req) (api_bm25 st') hy ?q d = Inl e)"
      by (rule score_candidates_Inl)
    with Inl r \<open>\<And>d. doc_score (useSemantic req) (api_bm25 st') hy ?q d \<noteq> Inl AttributeError\<close>
    show ?thesis by auto
  next
    case (Inr cands)
    with r hits_loop_Inl show ?thesis by fastforce
  qed
  moreover have "(\<not> useSemantic req \<or> semantic st \<noteq> None) \<longrightarrow> st' = st"
    using st' by (auto simp: get_semantic_def)
  moreover have "useSemantic req \<longrightarrow> semantic st' \<noteq> None"
    using st' by (auto simp: get_semantic_def Let_def)
  ultimately show ?thesis using inv by blast
qed


lemma dict_index_not_KeyError: "k \<in> fst ` set d \<Longrightarrow> dict_index d k \<noteq> Inl KeyError"
  by (auto simp: dict_index_def split: option.splits dest: weak_map_of_SomeI)

lemma score_candidates_Inl_keys:
  "set ds \<subseteq> fst ` set tbl \<Longrightarrow> score_candidates s tbl sc ds acc = Inl e \<Longrightarrow> \<exists>d \<in> set ds. sc d = Inl e"
proof (induction s tbl sc ds acc rule: score_candidates.induct)
  case (2 s tbl sc d ds acc)
  have "site_excluded s tbl d \<noteq> Inl e"
  proof
    assume "site_excluded s tbl d = Inl e"
    then have "dict_index tbl d = Inl e" by (auto simp: site_excluded_def split: option.splits if_splits sum.splits)
    with 2(3) show False by (auto simp: dict_index_def split: option.splits dest: weak_map_of_SomeI)
  qed
  with 2 show ?case by (auto split: sum.splits bool.splits)
qed simp

lemma score_candidates_keys:
  "score_candidates s tbl sc ds acc = Inr cands \<Longrightarrow> snd ` set cands \<subseteq> set ds \<union> snd ` set acc"
  using score_candidates_Inr by fastforce

lemma hits_loop_keys:
  "snd ` set cs \<subseteq> fst ` set tbl \<Longrightarrow> \<exists>hs. hits_loop tbl q cs acc = Inr hs"
proof (induction tbl q cs acc rule: hits_loop.induct)
  case (2 tbl q c cs acc)
  obtain x d where c: "c = (x, d)" by fastforce
  with 2(2) obtain doc where "map_of tbl d = Some doc" by (auto dest: weak_map_of_SomeI)
  with 2 c show ?case by (auto simp: make_hit_def dict_index_def)
qed simp

lemma bm25_score_not_KeyError:
  assumes "d \<in> fst ` set (doc_table (bm_index bm))" shows "bm25_score bm q d \<noteq> Inl KeyError"
proof
  assume "bm25_score bm q d = Inl KeyError"
  then show False
    using assms dict_index_not_KeyError [of d "doc_table (bm_index bm)"] score_loop_Inl [of bm _ 0 q KeyError]
    by (auto simp: bm25_score_def split: sum.splits)
qed

lemma semantic_score_not_KeyError:
  assumes "d \<in> fst ` set (embeddings sr)" shows "semantic_score sr q d \<noteq> Inl KeyError"
  using dict_index_not_KeyError [OF assms]
  by (auto simp: semantic_score_def cosine_def Let_def split: sum.splits)

lemma hybrid_score_not_KeyError:
  "d \<in> fst ` set (doc_table (bm_index (hy_bm25 h))) \<Longrightarrow> d \<in> fst ` set (embeddings (hy_semantic h)) \<Longrightarrow>
   hybrid_score h q d \<noteq> Inl KeyError"
  using bm25_score_not_KeyError [of d "hy_bm25 h" q] semantic_score_not_KeyError [of d "hy_semantic h" "py_join '' '' q"]
  by (auto simp: hybrid_score_def split: sum.splits)

lemma get_semantic_hybrid: "snd (snd (get_semantic env st)) = hybrid (fst (get_semantic env st))"
  by (simp add: get_semantic_def Let_def)

lemma api_ok_get_semantic: "api_ok env st \<Longrightarrow> api_ok env (fst (get_semantic env st))"
  by (auto simp: api_ok_def get_semantic_def Let_def split: option.splits)

lemma search_fst: "fst (search env st req) = (if useSemantic req then fst (get_semantic env st) else st)"
  by (simp add: search_unfold Let_def split: sum.split)

lemma api_ok_search: "api_ok env st \<Longrightarrow> api_ok env (fst (search env st req))"
  by (simp add: search_fst api_ok_get_semantic)

lemma doc_score_not_KeyError:
  assumes "api_ok env st" and "d \<in> fst ` set (doc_table (api_index st))"
    and "use_sem \<longrightarrow> hy = hybrid st \<and> semantic st \<noteq> None"
  shows "doc_score use_sem (api_bm25 st) hy q d \<noteq> Inl KeyError"
proof (cases use_sem)
  case True
  with assms(1,3) obtain h where "hy = Some h" "hy_bm25 h = api_bm25 st" "embeddings (hy_semantic h) = embeddings_file env"
    by (auto simp: api_ok_def split: option.splits)
  with True assms(1,2) show ?thesis
    using hybrid_score_not_KeyError [of d h q] by (auto simp: doc_score_def api_ok_def)
next
  case False
  with assms(1,2) show ?thesis using bm25_score_not_KeyError [of d "api_bm25 st" q] by (simp add: doc_score_def api_ok_def)
qed

lemma search_not_KeyError:
  assumes "api_ok env st"
  shows "snd (search env st req) \<noteq> Inl KeyError"
proof -
  let ?st = "if useSemantic req then fst (get_semantic env st) else st"
  let ?hy = "if useSemantic req then snd (snd (get_semantic env st)) else None"
  let ?q = "py_split_ws (py_lower (query req))"
  let ?tbl = "doc_table (api_index ?st)"
  have ok: "api_ok env ?st" using assms api_ok_get_semantic by simp
  have hy: "useSemantic req \<longrightarrow> ?hy = hybrid ?st \<and> semantic ?st \<noteq> None"
    by (simp add: get_semantic_hybrid get_semantic_def Let_def)
  have keys: "set (dict_keys ?tbl) \<subseteq> fst ` set ?tbl" by simp
  show ?thesis
  proof (cases "score_candidates (site req) ?tbl (doc_score (useSemantic req) (api_bm25 ?st) ?hy ?q) (dict_keys ?tbl) []")
    case (Inl e)
    then obtain d where "d \<in> set (dict_keys ?tbl)" "doc_score (useSemantic req) (api_bm25 ?st) ?hy ?q d = Inl e"
      using score_candidates_Inl_keys [OF keys] by blast
    moreover have "doc_score (useSemantic req) (api_bm25 ?st) ?hy ?q d \<noteq> Inl KeyError" if "d \<in> set (dict_keys ?tbl)" for d
      using doc_score_not_KeyError [OF ok _ hy] that by simp
    ultimately have "e \<noteq> KeyError" by auto
    with Inl show ?thesis by (simp add: search_unfold Let_def)
  next
    case (Inr cands)
    have "snd ` set (py_take (topK req) (rev (sort cands))) \<subseteq> snd ` set cands"
      using set_mono_prefix [OF py_take_prefix] by (fastforce)
    also have "\<dots> \<subseteq> fst ` set ?tbl" using score_candidates_keys [OF Inr] by auto
    finally obtain hs where "hits_loop ?tbl ?q (py_take (topK req) (rev (sort cands))) [] = Inr hs"
      using hits_loop_keys by blast
    with Inr show ?thesis by (simp add: search_unfold Let_def)
  qed
qed

subsection \<open>Scenarios\<close>

lemmas idx_eval = dict_get_def empty_index_def add_document_def token_positions_def add_posting_def Let_def pd_def

lemma idx3_table: "doc_table idx3 = [(''d1'', pd ''http://x.org/1'' [''a'', ''b'', ''a'']), (''d2'', pd ''http://example.com/2'' [''b'', ''c'']),
                   (''d3'', pd ''http://x.org/3'' [''a'', ''a'', ''a''])]"
  by (simp add: idx3_def empty_index_def)

lemma idx3_stats: "map (st_length \<circ> snd) (doc_stats idx3) = [3, 2, 3]"
  by (simp add: idx3_def idx_eval)

lemma idx3_N: "N idx3 = 3"
  by (simp add: idx3_def idx_eval)

lemma idx3_df: "dict_get (term_doc_freq idx3) ''a'' 0 = 2"
  by (simp add: idx3_def idx_eval)

lemma idx3_load: "index_load empty_index (index_save idx3) = idx3"
  by (simp add: index_load_def index_save_def)

lemma idx3_avgdl: "bm_avgdl (bm25_init idx3 (3/2) (3/4)) = 8 / 3"
  using idx3_stats by (simp add: bm25_init_def idx3_def idx_eval)

lemma idx3_idf: "bm25_idf (bm25_init idx3 (3/2) (3/4)) ''a'' = ln (8 / 5)"
  using idx3_df idx3_N by (simp add: bm25_idf_def)

lemma idx3_cands:
  "score_candidates None (doc_table idx3) (doc_score False (bm25_init idx3 (3/2) (3/4)) None [''a'']) [''d1'', ''d2'', ''d3''] [] =
   Inr [(ln (8 / 5) * 320 / 233, ''d1''), (0, ''d2''), (ln (8 / 5) * 160 / 99, ''d3'')]"
  by (simp add: site_excluded_def doc_score_def bm25_score_def dict_index_def idx3_table idx3_avgdl idx3_idf pd_def)

lemma idx3_sorted:
  "rev (sort [(ln (8 / 5) * 320 / 233, ''d1''), (0 :: real, ''d2''), (ln (8 / 5) * 160 / 99, ''d3'')]) =
   [(ln (8 / 5) * 160 / 99, ''d3''), (ln (8 / 5) * 320 / 233, ''d1''), (0, ''d2'')]"
proof -
  have l: "0 < ln (8 / 5 :: real)" by simp
  have "sort [(ln (8 / 5) * 320 / 233, ''d1''), (0 :: real, ''d2''), (ln (8 / 5) * 160 / 99, ''d3'')] =
        [(0, ''d2''), (ln (8 / 5) * 320 / 233, ''d1''), (ln (8 / 5) * 160 / 99, ''d3'')]"
    by (rule properties_for_sort) (use l in \<open>auto simp: less_eq_prod_def\<close>)
  then show ?thesis by simp
qed

lemma st3_simps [simp]: "api_index st3 = idx3" "semantic st3 = None" "hybrid st3 = None"
  "api_bm25 st3 = bm25_init idx3 (3 / 2) (3 / 4)"
  by (simp_all add: st3_def api_init_def idx3_load)

lemma req3_simps [simp]: "query (req3 k s u) = ''A''" "topK (req3 k s u) = k" "useSemantic (req3 k s u) = u"
  "site (req3 k s u) = s"
  by (simp_all add: req3_def)

lemma idx3_hits:
  "hits_loop (doc_table idx3) [''a''] [(ln (8 / 5) * 160 / 99, ''d3''), (ln (8 / 5) * 320 / 233, ''d1''), (0, ''d2'')] [] =
     Inr [\<lparr>hit_title = Some ''http://x.org/3'', hit_url = ''http://x.org/3'', hit_snippet = ''http://x.org/3'',
           hit_score = ln (8 / 5) * 160 / 99, hit_highlights = [''a'']\<rparr>,
          \<lparr>hit_title = Some ''http://x.org/1'', hit_url = ''http://x.org/1'', hit_snippet = ''http://x.org/1'',
           hit_score = ln (8 / 5) * 320 / 233, hit_highlights = [''a'']\<rparr>,
          \<lparr>hit_title = Some ''http://example.com/2'', hit_url = ''http://example.com/2'', hit_snippet = ''http://example.com/2'',
           hit_score = 0, hit_highlights = []\<rparr>]"
  by (simp add: make_hit_def dict_index_def idx3_table pd_def)

lemma st3_search:
  "search env0 st3 (req3 k None False) =
     (st3, hits_loop (doc_table idx3) [''a'']
             (py_take k [(ln (8 / 5) * 160 / 99, ''d3''), (ln (8 / 5) * 320 / 233, ''d1''), (0, ''d2'')]) [])"
proof -
  have q: "py_split_ws (py_lower ''A'') = [''a'']" by (simp add: pystr)
  have k: "dict_keys (doc_table idx3) = [''d1'', ''d2'', ''d3'']" by (simp add: idx3_table)
  show ?thesis
    by (simp add: search_unfold q k Let_def idx3_cands idx3_sorted del: score_candidates.simps)
qed

text \<open>
  A ranking scenario: three documents with token sequences \<open>[a, b, a]\<close>,
  \<open>[b, c]\<close> and \<open>[a, a, a]\<close>, queried for \<open>A\<close> with BM25 only
  (\<open>k1 = 1.5\<close>, \<open>b = 0.75\<close>): the query is lower-cased, \<open>idf(a) = ln 1.6\<close>,
  and the hits are document 3, then document 1, then document 2 with score 0, with their
  title, URL, snippet and highlighted query tokens.
\<close>

theorem search_bm25_scenario:
  "snd (search env0 st3 (req3 10 None False)) =
     Inr [\<lparr>hit_title = Some ''http://x.org/3'', hit_url = ''http://x.org/3'', hit_snippet = ''http://x.org/3'',
           hit_score = ln (8 / 5) * 160 / 99, hit_highlights = [''a'']\<rparr>,
          \<lparr>hit_title = Some ''http://x.org/1'', hit_url = ''http://x.org/1'', hit_snippet = ''http://x.org/1'',
           hit_score = ln (8 / 5) * 320 / 233, hit_highlights = [''a'']\<rparr>,
          \<lparr>hit_title = Some ''http://example.com/2'', hit_url = ''http://example.com/2'', hit_snippet = ''http://example.com/2'',
           hit_score = 0, hit_highlights = []\<rparr>] \<and>
   ln (8 / 5) * 160 / 99 > (ln (8 / 5) * 320 / 233 :: real) \<and> ln (8 / 5) * 320 / 233 > (0::real)"
proof -
  have "0 < ln (8 / 5 :: real)" by simp
  then show ?thesis by (simp add: st3_search idx3_hits del: hits_loop.simps)
qed

text \<open>
  \<open>candidates[:req.topK]\<close> with a negative \<open>topK\<close> drops candidates from the end
  instead of returning none: \<open>topK = -1\<close> returns every hit but the lowest-scoring one,
  while \<open>topK = 0\<close> returns none.
\<close>

theorem search_negative_topK:
  "map hit_url (projr (snd (search env0 st3 (req3 (-1) None False)))) = [''http://x.org/3'', ''http://x.org/1''] \<and>
   snd (search env0 st3 (req3 0 None False)) = Inr []"
  by (simp add: st3_search py_take_neg make_hit_def dict_index_def idx3_table pd_def)

theorem search_hits_sorted_witness:
  "sorted_wrt (\<ge>) (map hit_score (projr (snd (search env0 st3 (req3 10 None False))))) \<and>
   length (projr (snd (search env0 st3 (req3 10 None False)))) \<le> 10"
proof -
  have "search env0 st3 (req3 10 None False) = (st3, Inr (projr (snd (search env0 st3 (req3 10 None False)))))"
    using idx3_hits by (simp add: st3_search del: hits_loop.simps)
  then have "sorted_wrt (\<ge>) (map hit_score (projr (snd (search env0 st3 (req3 10 None False))))) \<and>
     (0 \<le> topK (req3 10 None False) \<longrightarrow> length (projr (snd (search env0 st3 (req3 10 None False)))) \<le> nat (topK (req3 10 None False)))"
    by (rule search_hits_sorted)
  then show ?thesis by simp
qed

lemma st3_search_site:
  "search env0 st3 (req3 10 (Some ''example.com'') False) =
     (st3, Inr [\<lparr>hit_title = Some ''http://example.com/2'', hit_url = ''http://example.com/2'',
                 hit_snippet = ''http://example.com/2'', hit_score = 0, hit_highlights = []\<rparr>])"
proof -
  have q: "py_split_ws (py_lower ''A'') = [''a'']" by (simp add: pystr)
  have k: "dict_keys (doc_table idx3) = [''d1'', ''d2'', ''d3'']" by (simp add: idx3_table)
  have c: "score_candidates (Some ''example.com'') (doc_table idx3) (doc_score False (bm25_init idx3 (3/2) (3/4)) None [''a''])
             [''d1'', ''d2'', ''d3''] [] = Inr [(0, ''d2'')]"
    by (simp add: site_excluded_def doc_score_def bm25_score_def dict_index_def idx3_table idx3_avgdl idx3_idf pd_def pystr)
  have "search env0 st3 (req3 10 (Some ''example.com'') False) = (st3, hits_loop (doc_table idx3) [''a''] [(0, ''d2'')] [])"
    by (simp add: search_unfold q k Let_def c del: score_candidates.simps hits_loop.simps)
  then show ?thesis
    by (simp add: make_hit_def dict_index_def idx3_table pd_def)
qed

theorem search_site_filter_witness:
  "list_all (\<lambda>h. sublist ''example.com'' (hit_url h)) (projr (snd (search env0 st3 (req3 10 (Some ''example.com'') False)))) \<and>
   projr (snd (search env0 st3 (req3 10 (Some ''example.com'') False))) \<noteq> []"
proof -
  have "search env0 st3 (req3 10 (Some ''example.com'') False) =
          (st3, Inr (projr (snd (search env0 st3 (req3 10 (Some ''example.com'') False)))))"
    by (simp add: st3_search_site)
  moreover have "site (req3 10 (Some ''example.com'') False) = Some ''example.com''" by simp
  ultimately have "\<forall>h \<in> set (projr (snd (search env0 st3 (req3 10 (Some ''example.com'') False)))). sublist ''example.com'' (hit_url h)"
    by (rule search_site_filter)
  then show ?thesis by (simp add: list_all_iff st3_search_site)
qed

theorem search_lazy_semantic_witness:
  "api_inv (fst (search env0 st3 (req3 10 None True))) \<and>
   semantic (fst (search env0 st3 (req3 10 None True))) \<noteq> None \<and>
   snd (search env0 st3 (req3 10 None True)) \<noteq> Inl AttributeError"
proof -
  have "api_inv st3" by (simp add: api_inv_def)
  moreover have "search env0 st3 (req3 10 None True) = (fst (search env0 st3 (req3 10 None True)), snd (search env0 st3 (req3 10 None True)))"
    by simp
  ultimately have "api_inv (fst (search env0 st3 (req3 10 None True))) \<and> snd (search env0 st3 (req3 10 None True)) \<noteq> Inl AttributeError \<and>
         ((\<not> useSemantic (req3 10 None True) \<or> semantic st3 \<noteq> None) \<longrightarrow> fst (search env0 st3 (req3 10 None True)) = st3) \<and>
         (useSemantic (req3 10 None True) \<longrightarrow> semantic (fst (search env0 st3 (req3 10 None True))) \<noteq> None)"
    by (rule search_lazy_semantic)
  then show ?thesis by simp
qed


text \<open>
  C13. A lexical search without a site filter and with \<open>topK\<close> at least the number of
  documents loses no document: it returns one hit per document of the served table, and
  every document appears among the hits with its URL and its BM25 score for the
  lower-cased, split query.
\<close>

theorem search_complete:
  assumes run: "search env st req = (st', Inr hs)" and lex: "\<not> useSemantic req" and ns: "site req = None"
    and k: "int (length (doc_table (api_index st))) \<le> topK req"
    and dist: "distinct (map fst (doc_table (api_index st)))"
  shows "length hs = length (doc_table (api_index st)) \<and>
         (\<forall>(d, doc)\<in>set (doc_table (api_index st)). \<exists>h\<in>set hs.
            hit_url h = url doc \<and> bm25_score (api_bm25 st) (py_split_ws (py_lower (query req))) d = Inr (hit_score h))"
proof -
  let ?q = "py_split_ws (py_lower (query req))"
  let ?tbl = "doc_table (api_index st)"
  have st': "st' = st" using run lex by (simp add: search_def Let_def split: sum.splits)
  obtain cands hy where sc: "score_candidates None ?tbl (doc_score False (api_bm25 st) hy ?q) (dict_keys ?tbl) [] = Inr cands"
    and hits: "list_all2 (\<lambda>c h. make_hit ?tbl ?q c = Inr h) (py_take (topK req) (rev (sort cands))) hs"
    using run lex ns st' by (auto elim: search_hits)
  obtain xs where cx: "cands = xs" and all: "list_all2 (\<lambda>d c. snd c = d \<and> doc_score False (api_bm25 st) hy ?q d = Inr (fst c))
      (dict_keys ?tbl) xs"
    using score_candidates_all [OF sc] by auto
  have len: "length cands = length ?tbl" using list_all2_lengthD [OF all] cx by simp
  have take: "py_take (topK req) (rev (sort cands)) = rev (sort cands)" using k len by simp
  have "length hs = length ?tbl" using list_all2_lengthD [OF hits] len take by simp
  moreover have "\<exists>h\<in>set hs. hit_url h = url doc \<and> bm25_score (api_bm25 st) ?q d = Inr (hit_score h)"
    if dd: "(d, doc) \<in> set ?tbl" for d doc
  proof -
    obtain c where c: "c \<in> set xs" "snd c = d" "bm25_score (api_bm25 st) ?q d = Inr (fst c)"
      using list_all2_ex_right [OF all, of d] dd by (force simp: doc_score_def)
    then have "c \<in> set (py_take (topK req) (rev (sort cands)))" using take cx by simp
    then obtain h where h: "h \<in> set hs" "make_hit ?tbl ?q c = Inr h"
      using list_all2_ex_right [OF hits] by blast
    have "map_of ?tbl d = Some doc" using dist dd by (rule map_of_is_SomeI)
    then show ?thesis using make_hit_Inr [OF h(2)] h(1) c by auto
  qed
  ultimately show ?thesis by blast
qed


theorem search_complete_witness:
  "length (projr (snd (search env0 st3 (req3 10 None False)))) = 3"
proof -
  have run: "search env0 st3 (req3 10 None False) = (st3, Inr (projr (snd (search env0 st3 (req3 10 None False)))))"
    using idx3_hits by (simp add: st3_search del: hits_loop.simps)
  have "int (length (doc_table (api_index st3))) \<le> topK (req3 10 None False)"
    "distinct (map fst (doc_table (api_index st3)))"
    by (simp_all add: idx3_table)
  then have "length (projr (snd (search env0 st3 (req3 10 None False)))) = length (doc_table (api_index st3))"
    using search_complete [OF run] by simp
  then show ?thesis by (simp add: idx3_table)
qed

end
