(* ===== verification/Embedder.thy ===== *)
theory Embedder
  imports Indexer
begin

text \<open>
  The embedding builder of \<^verbatim>\<open>src/src/embedder.py\<close>. \<open>Embedder.build\<close> walks the
  directory listing, loads every \<open>.json\<close> file, keys it by the file name with every
  \<open>.json\<close> removed (the same key as \<open>Indexer.build\<close>) and stores the encoding of
  \<open>title + ' ' + ' '.join(headings) + ' ' + body\<close>, which raises \<open>TypeError\<close> when the
  title is \<open>None\<close>. The sentence encoder is a parameter (a function from text to a
  vector); a file that does not parse raises \<open>ValueError\<close> from \<open>json.load\<close>. Writing
  the pickle is the returned dictionary.
\<close>

definition embed_text :: "pdoc \<Rightarrow> py_error + string" where
  "embed_text doc =
     (case title doc of
        None \<Rightarrow> Inl TypeError
      | Some t \<Rightarrow> Inr (t @ '' '' @ py_join '' '' (headings doc) @ '' '' @ body doc))"

fun embedder_loop :: "(string \<Rightarrow> real list) \<Rightarrow> pdoc listing \<Rightarrow> (docid, real list) pydict \<Rightarrow>
    py_error + (docid, real list) pydict" where
  "embedder_loop enc [] emb = Inr emb"
| "embedder_loop enc ((f, c) # fs) emb =
     (if is_json_name f then
        (case c of
           None \<Rightarrow> Inl ValueError
         | Some doc \<Rightarrow>
             (case embed_text doc of
                Inl e \<Rightarrow> Inl e
              | Inr x \<Rightarrow> embedder_loop enc fs (AList.update (remove_all json_ext f) (enc x) emb)))
      else embedder_loop enc fs emb)"

definition embedder_build :: "(string \<Rightarrow> real list) \<Rightarrow> pdoc listing \<Rightarrow> py_error + (docid, real list) pydict" where
  "embedder_build enc listing = embedder_loop enc listing []"

text \<open>The first error of the loop, in listing order: \<open>ValueError\<close> for a file that does not
  parse, \<open>TypeError\<close> for a document without a title.\<close>

fun embed_error :: "pdoc listing \<Rightarrow> py_error option" where
  "embed_error [] = None"
| "embed_error ((f, c) # fs) =
     (if is_json_name f then
        (case c of None \<Rightarrow> Some ValueError | Some doc \<Rightarrow> if title doc = None then Some TypeError else embed_error fs)
      else embed_error fs)"

definition titled :: "docid \<times> pdoc \<Rightarrow> bool" where
  "titled dd \<longleftrightarrow> title (snd dd) \<noteq> None"

subsection \<open>Lemmas\<close>

text \<open>The loop completes exactly when no file raises, and then it stores the documents of
  \<open>json_docs\<close>, the list the indexer adds.\<close>

lemma embedder_loop_eq:
  "embedder_loop enc l emb =
     (case embed_error l of
        Some e \<Rightarrow> Inl e
      | None \<Rightarrow> Inr (foldl (\<lambda>e (d, doc). AList.update d (enc (projr (embed_text doc))) e) emb (json_docs l)))"
  by (induction enc l emb rule: embedder_loop.induct) (auto simp: embed_text_def split: option.splits)

lemma embed_error_None:
  "embed_error l = None \<longleftrightarrow> listing_parses l \<and> list_all titled (json_docs l)"
  by (induction l rule: embed_error.induct) (auto simp: listing_parses_def titled_def split: option.splits)

lemma embed_error_parses:
  "listing_parses l \<Longrightarrow> embed_error l = None \<or> embed_error l = Some TypeError"
  by (induction l rule: embed_error.induct) (auto simp: listing_parses_def split: option.splits)

lemma keys_foldl_update:
  "fst ` set (foldl (\<lambda>e (d, doc). AList.update d (g doc) e) emb docs) = fst ` set emb \<union> fst ` set docs"
proof (induction docs arbitrary: emb)
  case (Cons x docs)
  then show ?case using dict_keys_update [of "fst x" _ emb] by (cases x) auto
qed simp


subsection \<open>Properties\<close>



end
