(* ===== verification/Parser.thy ===== *)
theory Parser
  imports PyRepr Crawler Indexer "HOL-Library.Multiset"
begin

text \<open>
  The hand-over from the crawler to the parser. \<open>Crawler.save\<close>
  (\<^verbatim>\<open>src/src/crawler.py\<close> lines 99--109) writes, for a fetched URL, the page to
  \<open>h.html\<close> and \<open>str(meta)\<close> to \<open>h.meta\<close>, where \<open>h\<close> is the SHA-256 hex digest of
  the URL and \<open>meta\<close> holds the URL, the fetch time and the digest of the page.
  \<open>Parser.parse_all\<close> (\<^verbatim>\<open>src/src/parser.py\<close> lines 61--72) walks the raw
  directory, reads for every \<open>.html\<close> file the \<open>.meta\<close> file named by
  \<open>fname.replace('.html', '.meta')\<close>, evaluates it with \<open>eval\<close>, builds a
  \<open>Document\<close> for \<open>meta['url']\<close> and writes it to \<open>sha256(url).json\<close>. A
  directory is a list of file names with their contents, a missing file is \<open>OSError\<close>
  (\<open>FileNotFoundError\<close>), and the output directory is a dictionary from file names to
  documents, in which writing a name again replaces the file.

  HTML analysis (BeautifulSoup) and English analysis (spaCy) are collaborators: the
  configuration gives, for a page, its title, headings and body, and, for a text, spaCy's
  tokens with their lemmas and \<open>is_alpha\<close> flags and the stop-word set;
  \<open>Document.tokenize\<close> (\<open>doc_tokenize\<close>) filters them as the code does. The SHA-256
  hex digest and Python's \<open>repr\<close> of the fetch time are parameters as well.
  \<open>Document.parse\<close> (lines 29--38) is modelled whole: the \<open>metadata\<close> dictionary,
  with its default language and canonical URL, and the \<open>KeyError\<close> raised for a
  canonical \<open>link\<close> element without \<open>href\<close>, which stops \<open>parse_all\<close>. The pages the
  hand-over lemmas speak of are those whose canonical link, if any, has an \<open>href\<close>.
  \<open>parse_all_typed\<close> states the shape of every completed output directory.
\<close>

text \<open>The items of a dictionary display after its \<open>{\<close>, up to and including the closing
  \<open>}\<close>; a repeated key keeps its first position and takes the last value.\<close>

function read_items :: "(string, pyval) pydict \<Rightarrow> string \<Rightarrow> py_error + (string, pyval) pydict \<times> string" where
  "read_items d s =
     (let s0 = skip_ws s in
      if s0 \<noteq> [] \<and> hd s0 = CHR ''}'' then Inr (d, tl s0)
      else case read_str_lit s0 of
        Inl e \<Rightarrow> Inl e
      | Inr (k, s1) \<Rightarrow>
          (let s2 = skip_ws s1 in
           if s2 = [] \<or> hd s2 \<noteq> CHR '':'' then Inl SyntaxError
           else case read_value (skip_ws (tl s2)) of
             Inl e \<Rightarrow> Inl e
           | Inr (v, s3) \<Rightarrow>
               (let s4 = skip_ws s3; d' = AList.update k v d in
                if s4 \<noteq> [] \<and> hd s4 = CHR '','' then read_items d' (tl s4)
                else if s4 \<noteq> [] \<and> hd s4 = CHR ''}'' then Inr (d', tl s4)
                else Inl SyntaxError)))"
  by pat_completeness auto
termination
proof (relation "measure (\<lambda>(d, s). length s)")
  fix d s s0 x k s1 s2 xa v s3 s4 d'
  assume a: "s0 = skip_ws s" "read_str_lit s0 = Inr x" "(k, s1) = x" "s2 = skip_ws s1"
    "read_value (skip_ws (tl s2)) = Inr xa" "(v, s3) = xa" "s4 = skip_ws s3"
    "s4 \<noteq> [] \<and> hd s4 = CHR '',''"
  have lw: "length (skip_ws t) \<le> length t" for t by (rule length_dropWhile_le)
  have "length s1 < length s0" using read_str_lit_length [of s0 k s1] a by simp
  moreover have "length s3 < length (skip_ws (tl s2))"
    using read_value_length [of "skip_ws (tl s2)" v s3] a by simp
  moreover have "length (tl s4) < length s4" using a by simp
  moreover have "length s4 \<le> length s3" "length s2 \<le> length s1" "length s0 \<le> length s"
    unfolding a(1,4,7) by (rule lw)+
  moreover have "length (skip_ws (tl s2)) \<le> length (tl s2)" by (rule lw)
  moreover have "length (tl s2) \<le> length s2" by simp
  ultimately show "((d', tl s4), d, s) \<in> measure (\<lambda>(d, s). length s)" by simp
qed auto

definition eval_meta :: "string \<Rightarrow> py_error + (string, pyval) pydict" where
  "eval_meta t =
     (let s0 = skip_ws t in
      if s0 \<noteq> [] \<and> hd s0 = CHR ''{'' then
        (case read_items [] (tl s0) of
           Inl e \<Rightarrow> Inl e
         | Inr (d, r) \<Rightarrow> if skip_ws r = [] then Inr d else Inl SyntaxError)
      else Inl SyntaxError)"

text \<open>\<open>str(meta)\<close> for \<open>{'url': url, 'fetch_time': time.time(), 'content_hash': h}\<close>,
  the float written as the text \<open>t\<close>.\<close>

definition meta_text :: "string \<Rightarrow> string \<Rightarrow> string \<Rightarrow> string" where
  "meta_text u t h =
     ''{'' @ py_repr_str ''url'' @ '': '' @ py_repr_str u @ '', '' @ py_repr_str ''fetch_time'' @ '': '' @ t @
     '', '' @ py_repr_str ''content_hash'' @ '': '' @ py_repr_str h @ ''}''"


text \<open>What \<open>Crawler.save\<close> writes for one stored page, and the raw directory it leaves
  for a list of stored pages. \<open>sha\<close> is the SHA-256 hex digest, \<open>ftxt\<close> is
  \<open>repr\<close> of a float.\<close>

definition save_files :: "(string \<Rightarrow> string) \<Rightarrow> (real \<Rightarrow> string) \<Rightarrow> string \<Rightarrow> stored_page \<Rightarrow>
    (string \<times> string) list" where
  "save_files sha ftxt u p =
     [(sha u @ ''.html'', page_html p),
      (sha u @ ''.meta'', meta_text u (ftxt (page_fetch_time p)) (sha (page_html p)))]"

definition raw_dir :: "(string \<Rightarrow> string) \<Rightarrow> (real \<Rightarrow> string) \<Rightarrow> (string \<times> stored_page) list \<Rightarrow>
    (string \<times> string) list" where
  "raw_dir sha ftxt pages = concat (map (\<lambda>(u, p). save_files sha ftxt u p) pages)"

text \<open>The parser's collaborators: the SHA-256 hex digest, the HTML analysis of
  \<open>Document.parse\<close> (the title \<open>soup.title.string if soup.title else ''\<close>, which is
  \<open>None\<close> for a \<open>title\<close> element that is empty or has several children, the texts of the \<open>h1\<close>--\<open>h3\<close> elements, the
  \<open>p\<close> texts joined by a space; \<open>soup.html\<close>, \<open>None\<close> when there is no
  \<open>html\<close> element, with its \<open>lang\<close> attribute; the attributes of the first
  \<open>link\<close> element with \<open>rel="canonical"\<close>; the \<open>href\<close> of every \<open>a\<close>
  element that has one), and spaCy's analysis of a text (\<open>nlp(text)\<close>) with its stop
  words (\<open>STOPWORDS\<close>), which \<open>Document.tokenize\<close> filters.\<close>

record sp_token =
  tok_lemma :: string
  tok_alpha :: bool

record parse_cfg =
  sha_hex :: "string \<Rightarrow> string"
  html_fields :: "string \<Rightarrow> string option \<times> string list \<times> string"
  html_lang :: "string \<Rightarrow> string option option"
  canonical_attrs :: "string \<Rightarrow> (string, string) pydict option"
  anchor_hrefs :: "string \<Rightarrow> string list"
  nlp :: "string \<Rightarrow> sp_token list"
  stopwords :: "string set"

text \<open>\<open>Document.metadata\<close>; \<open>lang\<close> is \<open>None\<close> when the \<open>html\<close> element has no
  \<open>lang\<close> attribute.\<close>

record doc_meta =
  meta_url :: string
  meta_title :: "string option"
  meta_headings :: "string list"
  content_length :: nat
  lang :: "string option"
  canonical_url :: string
  outbound_links :: "string list"

text \<open>\<open>Document.tokenize\<close>: the lower-cased lemmas of the alphabetic tokens that are
  not stop words.\<close>

definition doc_tokenize :: "parse_cfg \<Rightarrow> string \<Rightarrow> string list" where
  "doc_tokenize pc text =
     map (\<lambda>t. py_lower (tok_lemma t))
       (filter (\<lambda>t. tok_alpha t \<and> py_lower (tok_lemma t) \<notin> stopwords pc) (nlp pc text))"

definition make_document :: "parse_cfg \<Rightarrow> string \<Rightarrow> string \<Rightarrow> pdoc" where
  "make_document pc u html =
     (case html_fields pc html of (t, hs, b) \<Rightarrow>
        \<lparr>url = u, title = t, headings = hs, body = b, tokens = doc_tokenize pc b\<rparr>)"

text \<open>\<open>soup.find('link', rel='canonical')['href']\<close>: \<open>KeyError\<close> when the element has
  no \<open>href\<close>.\<close>

definition canonical_href :: "parse_cfg \<Rightarrow> string \<Rightarrow> py_error + string option" where
  "canonical_href pc html =
     (case canonical_attrs pc html of
        None \<Rightarrow> Inr None
      | Some attrs \<Rightarrow> (case dict_index attrs ''href'' of Inl e \<Rightarrow> Inl e | Inr h \<Rightarrow> Inr (Some h)))"

definition doc_metadata :: "parse_cfg \<Rightarrow> string \<Rightarrow> string \<Rightarrow> py_error + doc_meta" where
  "doc_metadata pc u html =
     (case html_fields pc html of (t, hs, b) \<Rightarrow>
        (case canonical_href pc html of
           Inl e \<Rightarrow> Inl e
         | Inr c \<Rightarrow>
             Inr \<lparr>meta_url = u, meta_title = t, meta_headings = hs, content_length = length b,
                  lang = (case html_lang pc html of None \<Rightarrow> Some ''en'' | Some l \<Rightarrow> l),
                  canonical_url = (case c of None \<Rightarrow> u | Some h \<Rightarrow> h),
                  outbound_links = anchor_hrefs pc html\<rparr>))"

text \<open>\<open>Document(url, html)\<close>: the fields, then \<open>parse()\<close>, which may raise.\<close>

definition document_new :: "parse_cfg \<Rightarrow> string \<Rightarrow> string \<Rightarrow> py_error + pdoc \<times> doc_meta" where
  "document_new pc u html =
     (case doc_metadata pc u html of Inl e \<Rightarrow> Inl e | Inr m \<Rightarrow> Inr (make_document pc u html, m))"

text \<open>One iteration of \<open>parse_all\<close>: \<open>None\<close> for a file that is not \<open>.html\<close>, else
  the output file name and the document written to it (\<open>to_dict\<close> without the metadata,
  which no later stage reads). A \<open>url\<close> that is a number reaches \<open>Document\<close>, whose
  \<open>parse\<close> may raise first, and then fails at \<open>.encode()\<close>.\<close>

fun parse_file :: "parse_cfg \<Rightarrow> (string \<times> string) list \<Rightarrow> string \<times> string \<Rightarrow>
    py_error + (string \<times> pdoc) option" where
  "parse_file pc dir (fname, html) =
     (if suffix ''.html'' fname then
        (case map_of dir (py_replace ''.html'' ''.meta'' fname) of
           None \<Rightarrow> Inl OSError
         | Some mt \<Rightarrow>
             (case eval_meta mt of
                Inl e \<Rightarrow> Inl e
              | Inr meta \<Rightarrow>
                  (case dict_index meta ''url'' of
                     Inl e \<Rightarrow> Inl e
                   | Inr (PStr u) \<Rightarrow>
                       (case document_new pc u html of
                          Inl e \<Rightarrow> Inl e
                        | Inr (doc, m) \<Rightarrow> Inr (Some (sha_hex pc u @ ''.json'', doc)))
                   | Inr (PNum _) \<Rightarrow>
                       (case canonical_href pc html of Inl e \<Rightarrow> Inl e | Inr c \<Rightarrow> Inl AttributeError))))
      else Inr None)"

fun parse_loop :: "parse_cfg \<Rightarrow> (string \<times> string) list \<Rightarrow> (string \<times> string) list \<Rightarrow>
    (string, pdoc) pydict \<Rightarrow> py_error + (string, pdoc) pydict" where
  "parse_loop pc dir [] out = Inr out"
| "parse_loop pc dir (fh # fs) out =
     (case parse_file pc dir fh of
        Inl e \<Rightarrow> Inl e
      | Inr None \<Rightarrow> parse_loop pc dir fs out
      | Inr (Some (n, doc)) \<Rightarrow> parse_loop pc dir fs (AList.update n doc out))"

definition parse_all :: "parse_cfg \<Rightarrow> (string \<times> string) list \<Rightarrow> py_error + (string, pdoc) pydict" where
  "parse_all pc dir = parse_loop pc dir dir []"

text \<open>The text \<open>repr\<close> gives for the fetch time: digits, a point, digits (the form of
  \<open>repr(time.time())\<close> for every time from 1970 to the year 2286).\<close>

definition float_lit :: "string \<Rightarrow> bool" where
  "float_lit x \<longleftrightarrow>
     (let r = dropWhile is_digit x in
      takeWhile is_digit x \<noteq> [] \<and> r \<noteq> [] \<and> hd r = CHR ''.'' \<and> list_all is_digit (tl r))"



text \<open>The shape of an entry of the output directory: its name is the URL digest with
  \<open>.json\<close>, and its document is the one \<open>Document\<close> builds from the HTML of an
  \<open>.html\<close> file of the raw directory, tokens computed from its body, each a lower-cased
  word that is not a stop word.\<close>

definition parsed_entry :: "parse_cfg \<Rightarrow> (string \<times> string) list \<Rightarrow> string \<times> pdoc \<Rightarrow> bool" where
  "parsed_entry pc dir nd =
     (case nd of (n, doc) \<Rightarrow>
        n = sha_hex pc (url doc) @ ''.json'' \<and> tokens doc = doc_tokenize pc (body doc) \<and>
        list_all (\<lambda>t. py_lower t = t \<and> t \<notin> stopwords pc) (tokens doc) \<and>
        list_ex (\<lambda>(f, html). suffix ''.html'' f \<and> doc = make_document pc (url doc) html) dir)"

subsection \<open>Reading \<open>str(meta)\<close> back\<close>

lemma skip_ws_repr: "skip_ws (py_repr_str k @ x) = py_repr_str k @ x"
  using py_repr_str_hd [of k] by (cases "py_repr_str k") (auto simp: is_pyws_def)

lemma skip_ws_nows: "t \<noteq> [] \<Longrightarrow> \<not> is_pyws (hd t) \<Longrightarrow> skip_ws t = t"
  by (cases t) auto

lemma read_items_item:
  assumes "read_value vt = Inr (v, r)" and "vt \<noteq> []" "\<not> is_pyws (hd vt)"
  shows "read_items d (py_repr_str k @ '': '' @ vt) =
           (let s4 = skip_ws r in
            if s4 \<noteq> [] \<and> hd s4 = CHR '','' then read_items (AList.update k v d) (tl s4)
            else if s4 \<noteq> [] \<and> hd s4 = CHR ''}'' then Inr (AList.update k v d, tl s4)
            else Inl SyntaxError)"
proof -
  have h: "py_repr_str k \<noteq> []" "hd (py_repr_str k) \<noteq> CHR ''}''"
    using py_repr_str_hd [of k] by auto
  have "skip_ws ('' '' @ vt) = vt" using assms(2,3) by (simp add: is_pyws_def skip_ws_nows)
  then show ?thesis
    using h assms(1) unfolding read_items.simps [of d "py_repr_str k @ '': '' @ vt"]
    by (simp add: skip_ws_repr read_str_lit_repr is_pyws_def Let_def del: read_items.simps)
qed


lemma read_items_space: "read_items d (CHR '' '' # x) = read_items d x"
  unfolding read_items.simps [of d "CHR '' '' # x"] read_items.simps [of d x]
  by (simp add: is_pyws_def del: read_items.simps)

lemma eval_meta_text:
  assumes "list_all is_digit d1" "d1 \<noteq> []" "list_all is_digit d2"
  shows "eval_meta (meta_text u (d1 @ CHR ''.'' # d2) h) =
           Inr [(''url'', PStr u), (''fetch_time'', PNum (d1 @ CHR ''.'' # d2)), (''content_hash'', PStr h)]"
proof -
  let ?t = "d1 @ CHR ''.'' # d2"
  let ?r3 = "py_repr_str ''content_hash'' @ '': '' @ py_repr_str h @ ''}''"
  let ?r2 = "py_repr_str ''fetch_time'' @ '': '' @ ?t @ '', '' @ ?r3"
  have nw: "\<not> is_pyws (hd (py_repr_str x @ r))" "py_repr_str x @ r \<noteq> []" for x r
    using py_repr_str_hd [of x] by (auto simp: is_pyws_def)
  have hd_t: "\<not> is_pyws (hd (?t @ rest))" "?t @ rest \<noteq> []" for rest
    using assms(1,2) by (cases d1; auto simp: is_pyws_def is_digit_def)+
  have num: "read_value (?t @ '', '' @ ?r3) = Inr (PNum ?t, '', '' @ ?r3)"
  proof -
    have "\<not> (hd (?t @ '', '' @ ?r3) = CHR 0x27 \<or> hd (?t @ '', '' @ ?r3) = CHR 0x22)"
      using assms(1,2) by (cases d1) (auto simp: is_digit_def)
    moreover have "read_num (d1 @ CHR ''.'' # d2 @ '', '' @ ?r3) = Inr (?t, '', '' @ ?r3)"
      by (rule read_num_decimal [OF assms]) (simp add: is_digit_def)
    ultimately show ?thesis by (simp add: read_value_def)
  qed
  have i3: "read_items d ?r3 = Inr (AList.update ''content_hash'' (PStr h) d, [])" for d
    using read_items_item [OF read_value_repr [of h "''}''"] nw(2) nw(1), of d "''content_hash''"]
    by (simp add: is_pyws_def del: read_items.simps)
  have i2: "read_items d ?r2 = read_items (AList.update ''fetch_time'' (PNum ?t) d) ?r3" for d
    using read_items_item [OF num hd_t(2) hd_t(1), of d "''fetch_time''"]
    by (simp add: is_pyws_def read_items_space del: read_items.simps)
  have i1: "read_items [] (py_repr_str ''url'' @ '': '' @ py_repr_str u @ '', '' @ ?r2) =
            read_items [(''url'', PStr u)] ?r2"
    using read_items_item [OF read_value_repr [of u "'', '' @ ?r2"] nw(2) nw(1), of "[]" "''url''"]
    by (simp add: is_pyws_def read_items_space del: read_items.simps)
  show ?thesis
    using i1 i2 i3 by (simp add: eval_meta_def meta_text_def is_pyws_def del: read_items.simps)
qed


subsection \<open>\<open>parse_all\<close> over a saved directory\<close>

lemma float_lit_split:
  assumes "float_lit x"
  obtains d1 d2 where "x = d1 @ CHR ''.'' # d2" "list_all is_digit d1" "d1 \<noteq> []" "list_all is_digit d2"
proof
  let ?r = "dropWhile is_digit x"
  show "x = takeWhile is_digit x @ CHR ''.'' # tl ?r"
    using assms takeWhile_dropWhile_id [of is_digit x] by (cases ?r) (auto simp: float_lit_def Let_def)
  show "list_all is_digit (takeWhile is_digit x)" by (auto simp: list_all_iff dest: set_takeWhileD)
qed (insert assms, auto simp: float_lit_def Let_def)


lemma eval_meta_url:
  assumes "float_lit t"
  obtains m where "eval_meta (meta_text u t h) = Inr m" "dict_index m ''url'' = Inr (PStr u)"
proof -
  obtain d1 d2 where "t = d1 @ CHR ''.'' # d2" "list_all is_digit d1" "d1 \<noteq> []" "list_all is_digit d2"
    using assms by (rule float_lit_split)
  then show ?thesis using that eval_meta_text [of d1 d2 u h] by (simp add: dict_index_def)
qed

lemma py_replace_html: "CHR ''.'' \<notin> set h \<Longrightarrow> py_replace ''.html'' ''.meta'' (h @ ''.html'') = h @ ''.meta''"
  using py_replace_skip [of "''.html''" h "''.meta''" "''.html''"] py_replace_self [of "''.html''" "''.meta''"]
  by simp

lemma document_new_ok:
  "\<not> isl (canonical_href pc html) \<Longrightarrow> \<exists>m. document_new pc u html = Inr (make_document pc u html, m)"
  by (auto simp: document_new_def doc_metadata_def split: sum.splits prod.splits)

lemma parse_file_html:
  assumes "map_of dir (h @ ''.meta'') = Some (meta_text u t hh)" "float_lit t" "CHR ''.'' \<notin> set h"
    and "\<not> isl (canonical_href pc html)"
  shows "parse_file pc dir (h @ ''.html'', html) = Inr (Some (sha_hex pc u @ ''.json'', make_document pc u html))"
proof -
  obtain m where "eval_meta (meta_text u t hh) = Inr m" "dict_index m ''url'' = Inr (PStr u)"
    using assms(2) by (rule eval_meta_url)
  moreover obtain md where "document_new pc u html = Inr (make_document pc u html, md)"
    using document_new_ok [OF assms(4)] by blast
  moreover have "suffix ''.html'' (h @ ''.html'')" by (simp add: suffix_def)
  ultimately show ?thesis using assms(1,3) by (simp add: py_replace_html)
qed

lemma parse_file_meta: "parse_file pc dir (h @ ''.meta'', c) = Inr None"
  by (simp add: suffix_append suffix_to_prefix)

lemma parse_loop_ok:
  assumes "\<forall>fh\<in>set fs. \<exists>r. parse_file pc dir fh = Inr r"
  shows "parse_loop pc dir fs out =
           Inr (foldl (\<lambda>acc (k, v). AList.update k v acc) out
                  (List.map_filter (\<lambda>fh. case parse_file pc dir fh of Inr r \<Rightarrow> r | Inl _ \<Rightarrow> None) fs))"
  using assms
proof (induction fs arbitrary: out)
  case (Cons fh fs)
  then obtain r where "parse_file pc dir fh = Inr r" by auto
  then show ?case using Cons by (cases r) (auto simp: List.map_filter_simps)
qed simp

lemma raw_dir_names:
  "(n, c) \<in> set (raw_dir sha ftxt pages) \<longleftrightarrow>
     (\<exists>(u, p)\<in>set pages. (n, c) = (sha u @ ''.html'', page_html p) \<or>
        (n, c) = (sha u @ ''.meta'', meta_text u (ftxt (page_fetch_time p)) (sha (page_html p))))"
  by (auto simp: raw_dir_def save_files_def)

lemma raw_dir_distinct:
  assumes "distinct (map fst pages)" "inj_on sha (fst ` set pages)"
  shows "distinct (map fst (raw_dir sha ftxt pages))"
  using assms
proof (induction pages)
  case (Cons up pages)
  obtain u p where up: "up = (u, p)" by fastforce
  have "n \<notin> fst ` set (raw_dir sha ftxt pages)" if "n \<in> {sha u @ ''.html'', sha u @ ''.meta''}" for n
  proof
    assume "n \<in> fst ` set (raw_dir sha ftxt pages)"
    then obtain u' p' where "(u', p') \<in> set pages" "n = sha u' @ ''.html'' \<or> n = sha u' @ ''.meta''"
      by (fastforce simp: raw_dir_names)
    then show False using that Cons.prems up by (auto simp: inj_on_def image_iff)
  qed
  then show ?case using Cons up by (auto simp: raw_dir_def save_files_def)
qed (simp add: raw_dir_def)


lemma parse_loop_err:
  assumes "\<forall>fh\<in>set fs. parse_file pc dir fh = Inl e \<or> (\<exists>r. parse_file pc dir fh = Inr r)"
    and "\<exists>fh\<in>set fs. parse_file pc dir fh = Inl e"
  shows "parse_loop pc dir fs out = Inl e"
  using assms
proof (induction fs arbitrary: out)
  case (Cons fh fs)
  show ?case
  proof (cases "parse_file pc dir fh")
    case (Inl e')
    then show ?thesis using Cons.prems(1) by auto
  next
    case (Inr r)
    then have "\<exists>fh\<in>set fs. parse_file pc dir fh = Inl e" using Cons.prems(2) by auto
    then show ?thesis using Cons Inr by (cases r) auto
  qed
qed simp

lemma raw_dir_html:
  assumes "(u, p) \<in> set pages" "set (raw_dir (sha_hex pc) ftxt pages) \<subseteq> set dir" "distinct (map fst dir)"
    and "float_lit (ftxt (page_fetch_time p))" "CHR ''.'' \<notin> set (sha_hex pc u)"
    and "\<not> isl (canonical_href pc (page_html p))"
  shows "parse_file pc dir (sha_hex pc u @ ''.html'', page_html p) =
           Inr (Some (sha_hex pc u @ ''.json'', make_document pc u (page_html p)))"
proof (rule parse_file_html)
  let ?m = "meta_text u (ftxt (page_fetch_time p)) (sha_hex pc (page_html p))"
  have "(sha_hex pc u @ ''.meta'', ?m) \<in> set (raw_dir (sha_hex pc) ftxt pages)"
    using assms(1) by (auto simp: raw_dir_names)
  then have "(sha_hex pc u @ ''.meta'', ?m) \<in> set dir" using assms(2) by blast
  then show "map_of dir (sha_hex pc u @ ''.meta'') = Some ?m" using map_of_is_SomeI [OF assms(3)] by simp
qed (insert assms, auto)

lemma raw_dir_entry:
  "fh \<in> set (raw_dir (sha_hex pc) ftxt pages) \<Longrightarrow>
     (\<exists>(u, p)\<in>set pages. fh = (sha_hex pc u @ ''.html'', page_html p)) \<or> parse_file pc dir fh = Inr None"
  using parse_file_meta [of pc dir] by (cases fh) (auto simp: raw_dir_names simp del: parse_file.simps)

lemma raw_dir_names_sha:
  "n \<in> fst ` set (raw_dir sha ftxt pages) \<Longrightarrow>
     \<exists>u\<in>fst ` set pages. n = sha u @ ''.html'' \<or> n = sha u @ ''.meta''"
  by (force simp: raw_dir_names)

lemma parse_saved_dir:
  assumes pages: "distinct (map fst pages)" "inj_on (sha_hex pc) (fst ` set pages)"
    and ok: "\<forall>(u, p)\<in>set pages. CHR ''.'' \<notin> set (sha_hex pc u) \<and> float_lit (ftxt (page_fetch_time p)) \<and>
       \<not> isl (canonical_href pc (page_html p))"
    and dir: "mset dir = mset (raw_dir (sha_hex pc) ftxt pages)"
  obtains outs where "parse_all pc dir = Inr (foldl (\<lambda>acc (k, v). AList.update k v acc) [] outs)"
    "set outs = (\<lambda>up. (sha_hex pc (fst up) @ ''.json'', make_document pc (fst up) (page_html (snd up)))) ` set pages"
proof -
  let ?sha = "sha_hex pc"
  let ?raw = "raw_dir ?sha ftxt pages"
  let ?doc = "\<lambda>up. (?sha (fst up) @ ''.json'', make_document pc (fst up) (page_html (snd up)))"
  let ?F = "\<lambda>fh. case parse_file pc dir fh of Inr r \<Rightarrow> r | Inl _ \<Rightarrow> None"
  have dr: "distinct (map fst ?raw)" using raw_dir_distinct pages by blast
  have sd: "set dir = set ?raw" using dir mset_eq_setD by blast
  have "distinct (map fst dir)"
    using dr mset_eq_imp_distinct_iff [of "map fst dir" "map fst ?raw"] dir by simp
  have html: "parse_file pc dir (?sha u @ ''.html'', page_html p) = Inr (Some (?doc (u, p)))"
    if up: "(u, p) \<in> set pages" for u p
  proof -
    have "set ?raw \<subseteq> set dir" using sd by simp
    moreover have "CHR ''.'' \<notin> set (?sha u)" "float_lit (ftxt (page_fetch_time p))"
      "\<not> isl (canonical_href pc (page_html p))" using bspec [OF ok up] by simp_all
    ultimately show ?thesis using raw_dir_html [OF up _ \<open>distinct (map fst dir)\<close>] by simp
  qed
  have each: "(\<exists>(u, p)\<in>set pages. fh = (?sha u @ ''.html'', page_html p)) \<or> parse_file pc dir fh = Inr None"
    if "fh \<in> set dir" for fh
    using raw_dir_entry that sd by blast
  have "\<forall>fh\<in>set dir. \<exists>r. parse_file pc dir fh = Inr r" using each html by blast
  then have run: "parse_all pc dir = Inr (foldl (\<lambda>acc (k, v). AList.update k v acc) [] (List.map_filter ?F dir))"
    by (simp add: parse_all_def parse_loop_ok)
  have outs: "set (List.map_filter ?F dir) = ?doc ` set pages"
  proof (rule set_eqI, rule iffI)
    fix x assume "x \<in> set (List.map_filter ?F dir)"
    then obtain fh where "fh \<in> set dir" "?F fh = Some x" by (auto simp: set_map_filter_iff)
    show "x \<in> ?doc ` set pages"
    proof (cases "parse_file pc dir fh = Inr None")
      case True
      then show ?thesis using \<open>?F fh = Some x\<close> by simp
    next
      case False
      then obtain u p where up: "(u, p) \<in> set pages" "fh = (?sha u @ ''.html'', page_html p)"
        using each [OF \<open>fh \<in> set dir\<close>] by blast
      then have "x = ?doc (u, p)" using html [OF up(1)] \<open>?F fh = Some x\<close> by simp
      then show ?thesis using up(1) by blast
    qed
  next
    fix x assume "x \<in> ?doc ` set pages"
    then obtain u p where "(u, p) \<in> set pages" "x = ?doc (u, p)" by auto
    moreover from this(1) have "(?sha u @ ''.html'', page_html p) \<in> set dir" using sd by (auto simp: raw_dir_names)
    ultimately show "x \<in> set (List.map_filter ?F dir)" unfolding set_map_filter_iff
      using html by (intro bexI [of _ "(?sha u @ ''.html'', page_html p)"]) simp_all
  qed
  show ?thesis using that run outs by blast
qed

lemma storage_pages:
  assumes "distinct (map fst pages)" "map_of pages = st"
  shows "dom st = fst ` set pages" and "(u, p) \<in> set pages \<longleftrightarrow> st u = Some p"
  using assms dom_map_of_conv_image_fst map_of_is_SomeI map_of_SomeD by metis+

lemma storage_pages_ok:
  assumes "distinct (map fst pages)" "map_of pages = st"
    and "\<forall>u\<in>dom st. CHR ''.'' \<notin> set (sha_hex pc u)" "\<forall>p\<in>ran st. float_lit (ftxt (page_fetch_time p))"
    and "\<forall>p\<in>ran st. \<not> isl (canonical_href pc (page_html p))"
  shows "\<forall>(u, p)\<in>set pages. CHR ''.'' \<notin> set (sha_hex pc u) \<and> float_lit (ftxt (page_fetch_time p)) \<and>
       \<not> isl (canonical_href pc (page_html p))"
proof (intro ballI, clarify, intro conjI)
  fix u p assume "(u, p) \<in> set pages"
  then have sp: "st u = Some p" using storage_pages(2) [OF assms(1,2)] by blast
  show "CHR ''.'' \<notin> set (sha_hex pc u)" using assms(3) domI [of st u p, OF sp] by blast
  show "float_lit (ftxt (page_fetch_time p))" using assms(4) ranI [of st u p, OF sp] by blast
  show "\<not> isl (canonical_href pc (page_html p))" using assms(5) ranI [of st u p, OF sp] by blast
qed

lemma parse_saved_out:
  assumes "distinct (map fst pages)" "inj_on (sha_hex pc) (fst ` set pages)"
    and "\<forall>(u, p)\<in>set pages. CHR ''.'' \<notin> set (sha_hex pc u) \<and> float_lit (ftxt (page_fetch_time p)) \<and>
       \<not> isl (canonical_href pc (page_html p))"
    and "mset dir = mset (raw_dir (sha_hex pc) ftxt pages)"
  obtains out where "parse_all pc dir = Inr out" "distinct (map fst out)"
    "set out \<subseteq> (\<lambda>up. (sha_hex pc (fst up) @ ''.json'', make_document pc (fst up) (page_html (snd up)))) ` set pages"
proof -
  obtain outs where run: "parse_all pc dir = Inr (foldl (\<lambda>acc (k, v). AList.update k v acc) [] outs)"
    and outs: "set outs = (\<lambda>up. (sha_hex pc (fst up) @ ''.json'', make_document pc (fst up) (page_html (snd up)))) ` set pages"
    using parse_saved_dir [OF assms] by blast
  let ?out = "foldl (\<lambda>acc (k, v). AList.update k v acc) [] outs"
  have d: "distinct (map fst ?out)" by (rule distinct_foldl_update) simp
  have "x \<in> set outs" if "x \<in> set ?out" for x
  proof -
    have "map_of ?out (fst x) = Some (snd x)" using map_of_is_SomeI [OF d] that by simp
    then have "map_of (rev outs) (fst x) = Some (snd x)" by (simp add: map_of_foldl_update)
    then show ?thesis using map_of_SomeD by fastforce
  qed
  then show ?thesis using that run d outs by blast
qed


lemma make_document_url [simp]: "url (make_document pc u html) = u"
  and make_document_tokens [simp]: "tokens (make_document pc u html) = doc_tokenize pc (body (make_document pc u html))"
  by (simp_all add: make_document_def split: prod.split)

lemma doc_tokenize_normal [simp]:
  "list_all (\<lambda>t. py_lower t = t \<and> t \<notin> stopwords pc) (doc_tokenize pc text)"
  by (simp add: doc_tokenize_def list_all_iff)

lemma make_document_title: "title (make_document pc u html) = fst (html_fields pc html)"
  by (simp add: make_document_def split: prod.split)

lemma parse_file_Some:
  assumes "parse_file pc dir (f, html) = Inr (Some (n, doc))"
  obtains u where "suffix ''.html'' f" "n = sha_hex pc u @ ''.json''" "doc = make_document pc u html"
  using assms
  by (auto simp: document_new_def split: if_splits option.splits sum.splits pyval.splits prod.splits)

lemma parse_entry_new:
  "(f, html) \<in> set dir \<Longrightarrow> suffix ''.html'' f \<Longrightarrow>
     parsed_entry pc dir (sha_hex pc u @ ''.json'', make_document pc u html)"
  unfolding parsed_entry_def list_ex_iff by auto

lemma parse_loop_typed:
  "parse_loop pc dir fs out = Inr out' \<Longrightarrow> set fs \<subseteq> set dir \<Longrightarrow> distinct (map fst out) \<Longrightarrow>
     list_all (parsed_entry pc dir) out \<Longrightarrow> distinct (map fst out') \<and> list_all (parsed_entry pc dir) out'"
proof (induction fs arbitrary: out)
  case (Cons fh fs)
  obtain f html where fh: "fh = (f, html)" by fastforce
  have fs: "set fs \<subseteq> set dir" and fd: "(f, html) \<in> set dir" using Cons.prems(2) fh by auto
  show ?case
  proof (cases "parse_file pc dir fh")
    case (Inl e)
    then show ?thesis using Cons.prems(1) by simp
  next
    case (Inr r)
    show ?thesis
    proof (cases r)
      case None
      then have "parse_loop pc dir fs out = Inr out'" using Cons.prems(1) Inr by simp
      then show ?thesis using fs Cons.prems(3,4) by (rule Cons.IH)
    next
      case (Some nd)
      then obtain n doc where r: "r = Some (n, doc)" by fastforce
      have "parse_file pc dir (f, html) = Inr (Some (n, doc))" using Inr unfolding r fh .
      then obtain u where "suffix ''.html'' f" "n = sha_hex pc u @ ''.json''" "doc = make_document pc u html"
        by (rule parse_file_Some)
      then have "parsed_entry pc dir (n, doc)" using fd by (simp add: parse_entry_new)
      then have "list_all (parsed_entry pc dir) (AList.update n doc out)"
        using Cons.prems(4) by (rule list_all_update [rotated])
      moreover have "distinct (map fst (AList.update n doc out))"
        using Cons.prems(3) by (rule distinct_update)
      moreover have "parse_loop pc dir fs (AList.update n doc out) = Inr out'"
        using Cons.prems(1) Inr r by simp
      ultimately show ?thesis using fs by (intro Cons.IH)
    qed
  qed
qed simp

lemma parse_loop_Inr_files:
  "parse_loop pc dir fs out = Inr out' \<Longrightarrow> fh \<in> set fs \<Longrightarrow> \<not> isl (parse_file pc dir fh)"
proof (induction fs arbitrary: out)
  case (Cons fh' fs)
  then show ?case by (cases "parse_file pc dir fh'") (auto split: option.splits prod.splits)
qed simp

lemma parse_file_canonical_KeyError:
  assumes "map_of dir (h @ ''.meta'') = Some (meta_text u t hh)" "float_lit t" "CHR ''.'' \<notin> set h"
    and "canonical_attrs pc html = Some attrs" "map_of attrs ''href'' = None"
  shows "parse_file pc dir (h @ ''.html'', html) = Inl KeyError"
proof -
  obtain m where "eval_meta (meta_text u t hh) = Inr m" "dict_index m ''url'' = Inr (PStr u)"
    using assms(2) by (rule eval_meta_url)
  moreover have "document_new pc u html = Inl KeyError"
    using assms(4,5) by (simp add: document_new_def doc_metadata_def canonical_href_def dict_index_def split: prod.split)
  moreover have "suffix ''.html'' (h @ ''.html'')" by (simp add: suffix_def)
  ultimately show ?thesis using assms(1,3) by (simp add: py_replace_html)
qed

text \<open>A page whose canonical \<open>link\<close> has no \<open>href\<close> stops \<open>parse_all\<close>, whatever the
  other files of the directory.\<close>

lemma parse_all_canonical_fails:
  assumes "(h @ ''.html'', html) \<in> set dir" "map_of dir (h @ ''.meta'') = Some (meta_text u t hh)"
    and "float_lit t" "CHR ''.'' \<notin> set h"
    and "canonical_attrs pc html = Some attrs" "map_of attrs ''href'' = None"
  shows "isl (parse_all pc dir)"
proof (cases "parse_all pc dir")
  case (Inr out)
  then have "\<not> isl (parse_file pc dir (h @ ''.html'', html))"
    using assms(1) unfolding parse_all_def by (rule parse_loop_Inr_files)
  then show ?thesis using parse_file_canonical_KeyError [OF assms(2-6)] by simp
qed simp

subsection \<open>Properties\<close>

text \<open>
  C20. \<open>eval\<close> reads back what \<open>str(meta)\<close> writes: for a fetch time printed as a decimal
  literal, the text of the \<open>.meta\<close> file evaluates to the dictionary with the URL, the
  fetch time and the page digest, in the order \<open>save\<close> built it.
\<close>

theorem meta_text_roundtrip:
  "float_lit t \<Longrightarrow>
     eval_meta (meta_text u t h) = Inr [(''url'', PStr u), (''fetch_time'', PNum t), (''content_hash'', PStr h)]"
  by (erule float_lit_split) (simp add: eval_meta_text)

theorem meta_text_roundtrip_witness:
  "eval_meta (meta_text ''http://a/'' ''1.5'' ''ab'') =
     Inr [(''url'', PStr ''http://a/''), (''fetch_time'', PNum ''1.5''), (''content_hash'', PStr ''ab'')]"
  using meta_text_roundtrip [of "''1.5''" "''http://a/''" "''ab''"] by (simp add: float_lit_def is_digit_def)

text \<open>
  C12. The hand-over from the crawler to the parser. When the raw directory holds exactly the
  files \<open>Crawler.save\<close> wrote for the stored pages, listed in any order, the URL digests are
  distinct and contain no \<open>.\<close>, the fetch times print as decimal literals, and no stored
  page has a canonical link without \<open>href\<close>, \<open>parse_all\<close> completes and its output directory holds one file per stored URL, named
  \<open>sha256(url).json\<close> and holding the document built from that URL and its stored page,
  and no other file.
\<close>

theorem crawl_parse_handover:
  assumes pages: "distinct (map fst pages)" "map_of pages = storage s"
    and inj: "inj_on (sha_hex pc) (dom (storage s))"
    and dots: "\<forall>u\<in>dom (storage s). CHR ''.'' \<notin> set (sha_hex pc u)"
    and times: "\<forall>p\<in>ran (storage s). float_lit (ftxt (page_fetch_time p))"
    and canon: "\<forall>p\<in>ran (storage s). \<not> isl (canonical_href pc (page_html p))"
    and dir: "mset dir = mset (raw_dir (sha_hex pc) ftxt pages)"
  shows "\<exists>out. parse_all pc dir = Inr out \<and>
           fst ` set out = (\<lambda>u. sha_hex pc u @ ''.json'') ` dom (storage s) \<and>
           (\<forall>u p. storage s u = Some p \<longrightarrow>
              map_of out (sha_hex pc u @ ''.json'') = Some (make_document pc u (page_html p)))"
proof -
  let ?sha = "sha_hex pc"
  let ?doc = "\<lambda>up. (?sha (fst up) @ ''.json'', make_document pc (fst up) (page_html (snd up)))"
  note dom = storage_pages(1) [OF pages] and pin = storage_pages(2) [OF pages]
  note ok = storage_pages_ok [OF pages dots times canon]
  have "inj_on ?sha (fst ` set pages)" using inj unfolding dom .
  then obtain outs where run: "parse_all pc dir = Inr (foldl (\<lambda>acc (k, v). AList.update k v acc) [] outs)"
    and outs: "set outs = ?doc ` set pages"
    using parse_saved_dir [OF pages(1) _ ok dir] by blast
  define out where "out = foldl (\<lambda>acc (k, v). AList.update k v acc) [] outs"
  have mo: "map_of out = map_of (rev outs)"
    unfolding out_def by (simp add: map_of_foldl_update)
  have "fst ` set out = fst ` ?doc ` set pages"
    using arg_cong [OF mo, of dom] outs by (simp add: dom_map_of_conv_image_fst)
  then have keys: "fst ` set out = (\<lambda>u. ?sha u @ ''.json'') ` dom (storage s)"
    unfolding dom by (auto simp: image_image split_def)
  have "map_of out (?sha u @ ''.json'') = Some (make_document pc u (page_html p))"
    if "storage s u = Some p" for u p
    unfolding mo
  proof (rule map_of_functional)
    show "(?sha u @ ''.json'', make_document pc u (page_html p)) \<in> set (rev outs)"
      using that pin outs by force
    fix v assume "(?sha u @ ''.json'', v) \<in> set (rev outs)"
    then obtain u' p' where "(u', p') \<in> set pages" "?sha u' = ?sha u" "v = make_document pc u' (page_html p')"
      using outs by auto
    then show "v = make_document pc u (page_html p)"
      using that pin inj by (metis domI inj_on_def option.inject)
  qed
  then show ?thesis using run keys unfolding out_def by blast
qed

theorem crawl_parse_handover_witness:
  "\<exists>out. parse_all \<lparr>sha_hex = \<lambda>u. ''ab'', html_fields = \<lambda>h. (Some ''T'', [], h), html_lang = \<lambda>h. None,
      canonical_attrs = \<lambda>h. None, anchor_hrefs = \<lambda>h. [], nlp = \<lambda>b. [\<lparr>tok_lemma = b, tok_alpha = True\<rparr>], stopwords = {}\<rparr>
      [(''ab.meta'', meta_text ''http://a/'' ''1.5'' ''ab''), (''ab.html'', ''<p>x</p>'')] = Inr out \<and>
    fst ` set out = {''ab.json''} \<and>
    map_of out ''ab.json'' =
      Some \<lparr>url = ''http://a/'', title = Some ''T'', headings = [], body = ''<p>x</p>'', tokens = [''<p>x</p>'']\<rparr>"
proof -
  let ?pc = "\<lparr>sha_hex = \<lambda>u. ''ab'', html_fields = \<lambda>h. (Some ''T'', [], h), html_lang = \<lambda>h. None,
      canonical_attrs = \<lambda>h. None, anchor_hrefs = \<lambda>h. [], nlp = \<lambda>b. [\<lparr>tok_lemma = b, tok_alpha = True\<rparr>], stopwords = {}\<rparr>"
  let ?p = "\<lparr>page_html = ''<p>x</p>'', page_fetch_time = 1.5\<rparr>"
  let ?pages = "[(''http://a/'', ?p)]"
  let ?s = "(crawler_new 0)\<lparr>storage := map_of ?pages\<rparr>"
  have "\<exists>out. parse_all ?pc [(''ab.meta'', meta_text ''http://a/'' ''1.5'' ''ab''), (''ab.html'', ''<p>x</p>'')] = Inr out \<and>
          fst ` set out = (\<lambda>u. sha_hex ?pc u @ ''.json'') ` dom (storage ?s) \<and>
          (\<forall>u p. storage ?s u = Some p \<longrightarrow>
             map_of out (sha_hex ?pc u @ ''.json'') = Some (make_document ?pc u (page_html p)))"
  proof (rule crawl_parse_handover [of ?pages ?s ?pc "\<lambda>t. ''1.5''"])
    show "distinct (map fst ?pages)" by simp
    show "map_of ?pages = storage ?s" by (simp add: crawler_new_def)
    show "inj_on (sha_hex ?pc) (dom (storage ?s))" by (simp add: crawler_new_def)
    show "\<forall>u\<in>dom (storage ?s). CHR ''.'' \<notin> set (sha_hex ?pc u)" by (simp add: crawler_new_def)
    show "\<forall>p\<in>ran (storage ?s). float_lit ((\<lambda>t. ''1.5'') (page_fetch_time p))"
      by (simp add: crawler_new_def float_lit_def is_digit_def)
    show "\<forall>p\<in>ran (storage ?s). \<not> isl (canonical_href ?pc (page_html p))"
      by (simp add: crawler_new_def canonical_href_def)
    show "mset [(''ab.meta'', meta_text ''http://a/'' ''1.5'' ''ab''), (''ab.html'', ''<p>x</p>'')] =
      mset (raw_dir (sha_hex ?pc) (\<lambda>t. ''1.5'') ?pages)"
      by (simp add: raw_dir_def save_files_def add_mset_commute)
  qed
  then obtain out where o1: "parse_all ?pc [(''ab.meta'', meta_text ''http://a/'' ''1.5'' ''ab''), (''ab.html'', ''<p>x</p>'')] = Inr out"
    and o2: "fst ` set out = (\<lambda>u. sha_hex ?pc u @ ''.json'') ` dom (storage ?s)"
    and o3: "\<forall>u p. storage ?s u = Some p \<longrightarrow>
             map_of out (sha_hex ?pc u @ ''.json'') = Some (make_document ?pc u (page_html p))"
    by blast
  have "dom (storage ?s) = {''http://a/''}" by (simp add: crawler_new_def)
  then have "fst ` set out = {''ab.json''}" using o2 by simp
  moreover have "map_of out ''ab.json'' = Some (make_document ?pc ''http://a/'' ''<p>x</p>'')"
    using o3 [rule_format, of "''http://a/''" ?p] by (simp add: crawler_new_def)
  ultimately show ?thesis using o1 by (simp add: make_document_def doc_tokenize_def py_lower_def py_lower_char_def)
qed

text \<open>
  C33. \<open>save\<close> writes the \<open>.html\<close> file before the \<open>.meta\<close> file. A directory left
  by a save interrupted between the two writes holds an \<open>.html\<close> file whose \<open>.meta\<close>
  file is missing, and \<open>parse_all\<close> then stops with \<open>OSError\<close>
  (\<open>FileNotFoundError\<close>) whatever the order of the listing: the pages saved completely
  are not parsed either (if the orphan is listed first, none of them is written).
\<close>

theorem parse_interrupted_save:
  assumes pages: "distinct (map fst pages)" "map_of pages = storage s"
    and inj: "inj_on (sha_hex pc) (dom (storage s))"
    and dots: "\<forall>u\<in>dom (storage s). CHR ''.'' \<notin> set (sha_hex pc u)"
    and times: "\<forall>p\<in>ran (storage s). float_lit (ftxt (page_fetch_time p))"
    and canon: "\<forall>p\<in>ran (storage s). \<not> isl (canonical_href pc (page_html p))"
    and new: "sha_hex pc u \<notin> sha_hex pc ` dom (storage s)" "CHR ''.'' \<notin> set (sha_hex pc u)"
    and dir: "mset dir = mset (raw_dir (sha_hex pc) ftxt pages @ [(sha_hex pc u @ ''.html'', html)])"
  shows "parse_all pc dir = Inl OSError"
proof -
  let ?sha = "sha_hex pc"
  let ?raw = "raw_dir ?sha ftxt pages"
  let ?orphan = "(?sha u @ ''.html'', html)"
  note dom = storage_pages(1) [OF pages]
  have fresh: "n \<noteq> ?sha u @ ''.html'' \<and> n \<noteq> ?sha u @ ''.meta''" if "n \<in> fst ` set ?raw" for n
    using raw_dir_names_sha [OF that] new(1) unfolding dom by (auto simp: image_iff)
  have sd: "set dir = insert ?orphan (set ?raw)" using mset_eq_setD [OF dir] by simp
  have "distinct (map fst ?raw)" using raw_dir_distinct pages(1) inj dom by simp
  moreover have "?sha u @ ''.html'' \<notin> fst ` set ?raw" using fresh by blast
  ultimately have "distinct (map fst (?raw @ [?orphan]))" by simp
  then have dd: "distinct (map fst dir)"
    using mset_eq_imp_distinct_iff [of "map fst dir" "map fst (?raw @ [?orphan])"] dir by simp
  have sub: "set ?raw \<subseteq> set dir" using sd by blast
  have ok: "\<exists>r. parse_file pc dir fh = Inr r" if "fh \<in> set ?raw" for fh
    using raw_dir_entry [OF that]
  proof
    assume "\<exists>(v, p)\<in>set pages. fh = (?sha v @ ''.html'', page_html p)"
    then obtain v p where vp: "(v, p) \<in> set pages" "fh = (?sha v @ ''.html'', page_html p)" by blast
    then have "CHR ''.'' \<notin> set (?sha v) \<and> float_lit (ftxt (page_fetch_time p)) \<and>
        \<not> isl (canonical_href pc (page_html p))"
      using storage_pages_ok [OF pages dots times canon] by blast
    then show ?thesis unfolding vp(2) using raw_dir_html [OF vp(1) sub dd] by blast
  qed blast
  have "?sha u @ ''.meta'' \<notin> fst ` set ?raw" using fresh by blast
  then have "map_of dir (?sha u @ ''.meta'') = None" using sd by (simp add: map_of_eq_None_iff)
  then have "parse_file pc dir ?orphan = Inl OSError"
    using new(2) by (simp add: py_replace_html suffix_def)
  then show ?thesis unfolding parse_all_def using sd ok by (intro parse_loop_err) auto
qed

theorem parse_interrupted_save_witness:
  "parse_all \<lparr>sha_hex = \<lambda>x. if x = ''http://a/'' then ''ab'' else ''cd'', html_fields = \<lambda>h. (Some ''T'', [], h), html_lang = \<lambda>h. None,
      canonical_attrs = \<lambda>h. None, anchor_hrefs = \<lambda>h. [], nlp = \<lambda>b. [\<lparr>tok_lemma = b, tok_alpha = True\<rparr>], stopwords = {}\<rparr>
    [(''ab.html'', ''<p>x</p>''), (''cd.html'', ''<p>y</p>''), (''ab.meta'', meta_text ''http://a/'' ''1.5'' ''cd'')] =
   Inl OSError"
proof -
  let ?pc = "\<lparr>sha_hex = \<lambda>x. if x = ''http://a/'' then ''ab'' else ''cd'', html_fields = \<lambda>h. (Some ''T'', [], h), html_lang = \<lambda>h. None,
      canonical_attrs = \<lambda>h. None, anchor_hrefs = \<lambda>h. [], nlp = \<lambda>b. [\<lparr>tok_lemma = b, tok_alpha = True\<rparr>], stopwords = {}\<rparr>"
  let ?p = "\<lparr>page_html = ''<p>x</p>'', page_fetch_time = 1.5\<rparr>"
  let ?pages = "[(''http://a/'', ?p)]"
  let ?s = "(crawler_new 0)\<lparr>storage := map_of ?pages\<rparr>"
  show ?thesis
  proof (rule parse_interrupted_save [of ?pages ?s ?pc "\<lambda>t. ''1.5''" "''http://b/''"])
    show "distinct (map fst ?pages)" by simp
    show "map_of ?pages = storage ?s" by (simp add: crawler_new_def)
    show "inj_on (sha_hex ?pc) (dom (storage ?s))" by (simp add: crawler_new_def)
    show "\<forall>u\<in>dom (storage ?s). CHR ''.'' \<notin> set (sha_hex ?pc u)" by (simp add: crawler_new_def)
    show "\<forall>p\<in>ran (storage ?s). float_lit ((\<lambda>t. ''1.5'') (page_fetch_time p))"
      by (simp add: crawler_new_def float_lit_def is_digit_def)
    show "\<forall>p\<in>ran (storage ?s). \<not> isl (canonical_href ?pc (page_html p))"
      by (simp add: crawler_new_def canonical_href_def)
    show "sha_hex ?pc ''http://b/'' \<notin> sha_hex ?pc ` dom (storage ?s)" by (simp add: crawler_new_def)
    show "CHR ''.'' \<notin> set (sha_hex ?pc ''http://b/'')" by simp
    show "mset [(''ab.html'', ''<p>x</p>''), (''cd.html'', ''<p>y</p>''), (''ab.meta'', meta_text ''http://a/'' ''1.5'' ''cd'')] =
      mset (raw_dir (sha_hex ?pc) (\<lambda>t. ''1.5'') ?pages @ [(sha_hex ?pc ''http://b/'' @ ''.html'', ''<p>y</p>'')])"
      by (simp add: raw_dir_def save_files_def add_mset_commute)
  qed
qed

text \<open>
  C21. What \<open>parse_all\<close> returns is well formed: whenever it completes, the output
  directory has no file name twice, and every file in it is named \<open>sha256(url).json\<close>
  after its document's URL and holds the document built from the HTML of an \<open>.html\<close>
  file of the raw directory, with the tokens of that document's body: lower-cased lemmas,
  none of them a stop word.
\<close>

theorem parse_all_typed:
  "parse_all pc dir = Inr out \<Longrightarrow> distinct (map fst out) \<and> list_all (parsed_entry pc dir) out"
  unfolding parse_all_def by (erule parse_loop_typed) simp_all

theorem parse_all_typed_witness:
  "\<exists>out. parse_all \<lparr>sha_hex = \<lambda>u. ''ab'', html_fields = \<lambda>h. (Some ''T'', [], h), html_lang = \<lambda>h. None,
      canonical_attrs = \<lambda>h. None, anchor_hrefs = \<lambda>h. [], nlp = \<lambda>b. [\<lparr>tok_lemma = b, tok_alpha = True\<rparr>], stopwords = {}\<rparr>
      [(''ab.meta'', meta_text ''http://a/'' ''1.5'' ''ab''), (''ab.html'', ''<p>x</p>'')] = Inr out \<and>
    distinct (map fst out) \<and>
    list_all (parsed_entry \<lparr>sha_hex = \<lambda>u. ''ab'', html_fields = \<lambda>h. (Some ''T'', [], h), html_lang = \<lambda>h. None,
      canonical_attrs = \<lambda>h. None, anchor_hrefs = \<lambda>h. [], nlp = \<lambda>b. [\<lparr>tok_lemma = b, tok_alpha = True\<rparr>], stopwords = {}\<rparr>
      [(''ab.meta'', meta_text ''http://a/'' ''1.5'' ''ab''), (''ab.html'', ''<p>x</p>'')]) out"
proof -
  let ?pc = "\<lparr>sha_hex = \<lambda>u. ''ab'', html_fields = \<lambda>h. (Some ''T'', [], h), html_lang = \<lambda>h. None,
      canonical_attrs = \<lambda>h. None, anchor_hrefs = \<lambda>h. [], nlp = \<lambda>b. [\<lparr>tok_lemma = b, tok_alpha = True\<rparr>], stopwords = {}\<rparr>"
  let ?dir = "[(''ab.meta'', meta_text ''http://a/'' ''1.5'' ''ab''), (''ab.html'', ''<p>x</p>'')]"
  let ?pages = "[(''http://a/'', \<lparr>page_html = ''<p>x</p>'', page_fetch_time = 1.5\<rparr>)]"
  obtain out where run: "parse_all ?pc ?dir = Inr out"
  proof (rule parse_saved_out [of ?pages ?pc "\<lambda>t. ''1.5''" ?dir])
    show "distinct (map fst ?pages)" by simp
    show "inj_on (sha_hex ?pc) (fst ` set ?pages)" by simp
    show "\<forall>(u, p)\<in>set ?pages. CHR ''.'' \<notin> set (sha_hex ?pc u) \<and> float_lit ((\<lambda>t. ''1.5'') (page_fetch_time p)) \<and>
       \<not> isl (canonical_href ?pc (page_html p))"
      by (simp add: float_lit_def is_digit_def canonical_href_def)
    show "mset ?dir = mset (raw_dir (sha_hex ?pc) (\<lambda>t. ''1.5'') ?pages)"
      by (simp add: raw_dir_def save_files_def add_mset_commute)
  qed
  then show ?thesis using parse_all_typed [OF run] by blast
qed

end
