(* ===== verification/Spec2Isabelle.thy ===== *)
theory Spec2Isabelle
  imports Crawl_Liveness Dedupe Api Embedder Parser
begin

text \<open>
  \<^bold>\<open>A verification development of the spork search pipeline.\<close>

  The program (\<^verbatim>\<open>src/\<close>) crawls web pages, parses them, removes near-duplicates,
  builds a positional inverted index and sentence embeddings, and serves ranked search results.
  \<^verbatim>\<open>src/scripts/run_pipeline.py\<close> runs the stages in order over directories of JSON
  files: \<open>Crawler.crawl\<close> (raw pages), \<open>Parser.parse_all\<close> (parsed documents),
  \<open>Deduplicator.dedupe\<close> (surviving documents), \<open>Indexer.build\<close> (the index pickle)
  and \<open>Embedder.build\<close> (the embedding pickle); \<^verbatim>\<open>src/src/api.py\<close> loads both and
  answers \<open>/search\<close> with the rankers of \<^verbatim>\<open>src/src/ranker.py\<close>.

  \<^bold>\<open>Theories and what they model.\<close>
  \<^item> \<open>Prelude\<close>: the Python built-ins the code relies on, as executable HOL functions:
    dictionaries as association lists (\<open>dict_get\<close> for \<open>.get\<close>, \<open>dict_index\<close> for
    \<open>d[k]\<close> with \<open>KeyError\<close>), \<open>str.lower\<close>, \<open>str.split()\<close>, \<open>str.strip\<close>,
    \<open>splitlines\<close>, \<open>str.replace(old, '')\<close> (\<open>remove_all\<close>), \<open>join\<close>, slices
    with negative bounds (\<open>py_take\<close>); the exceptions as the datatype \<open>py_error\<close>, a
    fallible operation returning \<open>py_error + 'a\<close>; strings over Latin-1.
  \<^item> \<open>Indexer\<close> (\<^verbatim>\<open>indexer.py\<close>): \<open>InvertedIndex\<close> as the record
    \<open>inverted_index\<close>, \<open>add_document\<close> statement by statement, \<open>Indexer.build\<close> as
    \<open>build_docs\<close> over the directory listing, \<open>save\<close>/\<open>load\<close>; an abstract
    specification (\<open>spec_postings\<close>, \<open>doc_freq\<close>) with the refinement of
    \<open>add_all\<close> and the well-formedness invariant \<open>index_wf\<close>.
  \<^item> \<open>Ranker\<close> (\<^verbatim>\<open>ranker.py\<close>): \<open>BM25\<close> (\<open>bm25_init\<close>, \<open>bm25_idf\<close>,
    the scoring loop \<open>score_loop\<close> with its \<open>ZeroDivisionError\<close>), the semantic scorer
    (\<open>cosine\<close> over real vectors; the encoder is a parameter) and the hybrid fusion.
  \<^item> \<open>Url\<close>: \<open>urllib.parse.urlparse\<close> of CPython 3.11.4 and later (standard library) on
    Latin-1 strings, with its \<open>ValueError\<close>s for unbalanced brackets and for a bracketed
    host that \<open>ipaddress\<close> does not read as IPv6 (\<open>check_bracketed_host\<close>); a URL
    without brackets never raises (\<open>urlparse_no_brackets\<close>).
  \<^item> \<open>Robots\<close> (\<^verbatim>\<open>crawler.py\<close> lines 10--53): \<open>RobotsTxt\<close>, its parser that keeps
    a partial state when a line raises, \<open>allowed\<close> and \<open>wait\<close>.
  \<^item> \<open>Crawler\<close> (\<^verbatim>\<open>crawler.py\<close> lines 55--120): the asyncio crawl as a step function
    \<open>crawl_step\<close> on the record \<open>crawler\<close>, one event per uninterrupted stretch of one
    worker (pop and fetch up to the request, response handling, exit, time passing), with
    the inductive reachability \<open>crawl_reach\<close> and invariants proved by rule induction.
  \<^item> \<open>Crawl_Liveness\<close>: liveness and termination of the crawl; the frontier stays finite,
    from every reachable state a run of at most \<open>finish_bound\<close> events (failed answers,
    pops, exits) ends it, and every run makes finitely many worker steps, by the
    lexicographic measure (\<open>success_budget\<close>, \<open>finish_bound\<close>).
  \<^item> \<open>PyRepr\<close>: Python's \<open>repr\<close> of strings, as \<open>str(meta)\<close> prints them in
    \<open>Crawler.save\<close> (\<^verbatim>\<open>crawler.py\<close> line 109), and the reading back of string and
    number literals by \<open>eval\<close> (\<^verbatim>\<open>parser.py\<close> line 68), as parsers returning the
    value and the rest of the text.
  \<^item> \<open>Parser\<close> (\<^verbatim>\<open>parser.py\<close>, and \<open>Crawler.save\<close> lines 99--109): the files
    \<open>save\<close> writes (\<open>save_files\<close>, \<open>raw_dir\<close>), \<open>eval\<close> of a dictionary display
    (\<open>read_items\<close>, \<open>eval_meta\<close>), \<open>Document\<close> (\<open>make_document\<close> for the
    fields, \<open>doc_metadata\<close> and \<open>canonical_href\<close> for \<open>parse\<close>'s metadata and its
    \<open>KeyError\<close>, \<open>doc_tokenize\<close> for \<open>tokenize\<close>'s filter of spaCy's tokens,
    \<open>document_new\<close> for the constructor, with BeautifulSoup and spaCy
    as the collaborators of \<open>parse_cfg\<close>) and
    \<open>Parser.parse_all\<close> (\<open>parse_file\<close> per listed file, \<open>parse_loop\<close>, \<open>parse_all\<close>)
    over the listing of the raw directory, in any order.
  \<^item> \<open>Dedupe\<close> (\<^verbatim>\<open>dedupe.py\<close>): datasketch's \<open>MinHash\<close> on 64-bit words with
    wrap-around and \<open>MinHashLSH\<close> (band query, insert raising \<open>ValueError\<close> on a known
    key; \<open>lsh_new\<close>, the empty index \<open>Deduplicator.__init__\<close> creates), the loop
    \<open>dedupe_loop\<close>, and its refinement of a greedy filter \<open>dedupe_spec\<close>.
  \<^item> \<open>Embedder\<close> (\<^verbatim>\<open>embedder.py\<close>): \<open>Embedder.build\<close> as \<open>embedder_loop\<close>, with
    the text \<open>embed_text\<close> that raises \<open>TypeError\<close> for a \<open>None\<close> title. A parsed
    document's title is \<open>string option\<close> throughout (\<open>pdoc\<close>), \<open>None\<close> being the JSON
    \<open>null\<close> that \<open>Document\<close> writes when \<open>soup.title.string\<close> is \<open>None\<close>.
  \<^item> \<open>Api\<close> (\<^verbatim>\<open>api.py\<close>): the module state \<open>api_state\<close> (index, BM25 scorer and the
    lazily created semantic and hybrid rankers), \<open>get_semantic\<close>, and the handler
    \<open>search\<close>: site filter, scoring of every document, \<open>sort(reverse=True)\<close>,
    \<open>[:topK]\<close> and the hits.
  \<^item> This theory: steps 2 to 5 of \<^verbatim>\<open>run_pipeline.py\<close> (\<open>run_pipeline\<close>: parse, dedupe,
    then index and embed the deduplicated directory, with the earlier contents of the data
    directories and the \<open>os.listdir\<close> order as parameters), steps 4 and 5 followed by the
    start-up of \<^verbatim>\<open>api.py\<close> (\<open>pipeline_serve\<close>), the service answering a sequence of requests
    one after another (\<open>serve_requests\<close>), and the properties that span components.

  \<^bold>\<open>What the lemmas show.\<close>
  Indexer: posting lists, document frequencies and \<open>N\<close> are those of the abstract
  specification; the index is well formed when document ids are distinct; a later file with
  the same id replaces the document but adds its postings again.
  Ranker: on an index built from a corpus BM25 equals the specification's formula computed
  from the corpus itself (\<open>bm25_ref\<close>); it is monotone in the term frequency, its idf is positive, it raises exactly when
  all documents are empty; the hybrid score is the convex combination, and a missing
  embedding raises \<open>KeyError\<close>.
  Robots and Crawler: every reachable crawler state has at most \<open>limit + W - 1\<close>
  visited pages, never re-fetches a visited URL in one step, keeps the saved pages equal to
  the visited set, and spaces two accesses to the same registry key and network location by
  the crawl delay; robots.txt is never fetched because the event loop is running, the
  limit is overshot, the frontier overlaps the visited set, politeness is per
  \<open>scheme://netloc\<close> and a malformed link aborts the crawl; in any robots.txt an empty
  \<open>Disallow:\<close> line disallows every URL whatever follows it, and a \<open>crawl-delay:\<close> line
  without digits drops every later line.
  PyRepr and Parser: \<open>eval\<close> gives back every string printed by \<open>repr\<close> and the
  whole \<open>str(meta)\<close> dictionary; over a raw directory holding exactly what \<open>save\<close>
  wrote, listed in any order, \<open>parse_all\<close> writes one \<open>sha256(url).json\<close> document
  per stored page and nothing else (when no stored page has a canonical link without
  \<open>href\<close>, which raises \<open>KeyError\<close>); every output it completes has distinct names,
  each the digest of its document's URL, and documents built from \<open>.html\<close> files of the
  raw directory (\<open>parse_all_typed\<close>); a save interrupted between its two writes makes
  \<open>parse_all\<close> fail with \<open>OSError\<close>.
  Embedder: a document whose title is \<open>None\<close> (an empty \<open>title\<close> element) makes
  \<open>Embedder.build\<close> raise \<open>TypeError\<close>, exactly when all files load.
  Dedupe: the loop is the greedy filter; its output is a subsequence of the input, pairwise
  non-colliding, drops only colliding documents, contains no two documents with the same
  token set, and is a fixed point; for every base name \<open>h\<close>, \<open>h.json\<close> and
  \<open>h.json.json\<close> share the key \<open>h\<close>, so the second is dropped or the run stops with
  \<open>ValueError\<close>; signature values stay below \<open>2^32\<close> although the permutation wraps.
  Api: hits are sorted by descending score, respect the site filter and \<open>topK\<close>, a
  negative \<open>topK\<close> drops hits from the end, a lexical search with \<open>topK\<close> at least the
  number of documents returns each document once with its BM25 score, the
  lazily created rankers are consistent, and a lexical query none of whose tokens occurs in a
  document scores 0 with no highlights.
  Crawl_Liveness: the crawl can always be brought to its end, and it always ends: there is
  no infinite run of worker steps, however many links the pages hold.
  Here: the deduplicated directory is valid input of the indexer, a service built by the
  pipeline never answers \<open>KeyError\<close>, and the whole pipeline run on what the crawler saved,
  when every stored page has a title string, completes and serves exactly parsed stored pages under the digests of their URLs; a query
  made of stop words matches no parsed document (the query is not lemmatised nor filtered),
  and the script's own crawl stores at most 22 pages.

  \<^bold>\<open>Inputs and bounds.\<close> No definition uses fuel: every loop of the code runs over a
  finite list and is structural recursion, the reader of \<open>eval\<close> (\<open>read_items\<close>) is a
  \<open>function\<close> whose termination follows from each item consuming text, and the crawler's
  unbounded run is a relation on event sequences whose liveness is bounded by
  \<open>finish_bound\<close>. The environment of the program is input: the directory listings (a file
  name with its parsed content, \<open>None\<close> for a file that does not parse), the network
  answers, the clock and sleep overshoot, the SHA-1 token hash and the MinHash permutations,
  the sentence encoder and the LSH band layout.

  \<^bold>\<open>Not modelled.\<close> HTML parsing and tokenisation (\<^verbatim>\<open>parser.py\<close>: BeautifulSoup and
  spaCy, parameters of \<open>parse_cfg\<close>: title, headings and body text, the
  \<open>lang\<close> attribute, the attributes of the canonical \<open>link\<close> element, the anchor
  \<open>href\<close>s, spaCy's tokens with their lemmas and \<open>is_alpha\<close> flags, and its stop
  words), \<open>eval\<close> of text other than a dictionary of string and decimal
  literals, the SHA-256 digest (a parameter), the transport layers (aiohttp, FastAPI,
  uvicorn), file I/O and pickling (taken to reproduce the values; in particular the
  text-mode read of an \<open>.html\<close> file, which turns \<open>\r\n\<close> and \<open>\r\<close> into \<open>\n\<close>,
  is taken as the identity, which changes document text but no file name), and the numerical
  content of the sentence encoder. The crawler's thread-level concurrency is the
  interleaving of asyncio steps on one thread; FastAPI's thread pool, which may run two
  requests at once, is modelled as requests served one after another. Step 1 of
  \<^verbatim>\<open>run_pipeline.py\<close> is the crawler model started as the script starts it
  (\<open>script_crawl_start\<close>: four seeds, \<open>max_concurrency=3\<close>; \<open>script_cfg\<close>:
  \<open>limit=20\<close>), whose runs store at most 22 pages (\<open>script_crawl_bounds\<close>); it is
  joined to steps 2 to 5 through the raw directory (\<open>raw_dir\<close>) in
  \<open>crawl_to_service\<close>. The directory constants and \<open>os.makedirs\<close> calls of the script
  are file bookkeeping. The constructors of \<open>Parser\<close>, \<open>Indexer\<close> and
  \<open>Embedder\<close> only store directory names, create directories and load the encoder (a
  parameter); that of \<open>Deduplicator\<close> also creates the LSH index (\<open>lsh_new\<close>), whose
  band layout datasketch derives from the threshold by numerical integration and which is a
  parameter here; its \<open>hashes\<close> dictionary is never read.
\<close>

definition pipeline_serve :: "(string \<Rightarrow> real list) \<Rightarrow> pdoc listing \<Rightarrow> py_error + api_state \<times> api_env" where
  "pipeline_serve enc deduped =
     (case indexer_build deduped of
        Inl e \<Rightarrow> Inl e
      | Inr idx \<Rightarrow>
          (case embedder_build enc deduped of
             Inl e \<Rightarrow> Inl e
           | Inr emb \<Rightarrow> Inr (api_init (index_save idx), \<lparr>encoder = enc, embeddings_file = emb\<rparr>)))"

fun serve_requests :: "api_env \<Rightarrow> api_state \<Rightarrow> search_req list \<Rightarrow> (py_error + hit list) list" where
  "serve_requests env st [] = []"
| "serve_requests env st (req # reqs) =
     (case search env st req of (st', r) \<Rightarrow> r # serve_requests env st' reqs)"

text \<open>\<^verbatim>\<open>run_pipeline.py\<close> after the crawl: \<open>parse_all\<close> writes into \<open>data/parsed\<close>
  (whose earlier contents are \<open>parsed0\<close>), the detector reads its listing and writes the
  kept files into \<open>data/deduped\<close> (earlier contents \<open>deduped0\<close>), and steps 4 and 5 and
  the service read the listing of that directory. \<open>ls\<close> is the order \<open>os.listdir\<close>
  returns.\<close>

definition run_pipeline :: "parse_cfg \<Rightarrow> dedup_cfg \<Rightarrow> nat \<Rightarrow> nat \<Rightarrow> (string \<Rightarrow> real list) \<Rightarrow>
    ((string, pdoc) pydict \<Rightarrow> (string, pdoc) pydict) \<Rightarrow> (string \<times> string) list \<Rightarrow>
    (string, pdoc) pydict \<Rightarrow> (string, pdoc) pydict \<Rightarrow> py_error + api_state \<times> api_env" where
  "run_pipeline pc dcfg nb r enc ls raw parsed0 deduped0 =
     (case parse_loop pc raw raw parsed0 of
        Inl e \<Rightarrow> Inl e
      | Inr parsed \<Rightarrow>
          (case dedupe dcfg nb r (map (\<lambda>(f, d). (f, Some d)) (ls parsed)) of
             Inl e \<Rightarrow> Inl e
           | Inr written \<Rightarrow>
               pipeline_serve enc
                 (map (\<lambda>(f, d). (f, Some d)) (ls (foldl (\<lambda>acc (k, v). AList.update k v acc) deduped0 written)))))"

text \<open>Step 1 of \<^verbatim>\<open>run_pipeline.py\<close>: the four seeds, \<open>Crawler(RAW_DIR,
  max_concurrency=3)\<close> and \<open>asyncio.run(crawler.crawl(seeds, limit=20))\<close>. The network, the
  clock and \<open>urljoin\<close> stay the environment \<open>env\<close>; the script fixes the limit.\<close>

definition pipeline_seeds :: "string list" where
  "pipeline_seeds = [''https://fastapi.tiangolo.com/'', ''https://spacy.io/'',
     ''https://www.sentence-transformers.org/'', ''https://www.python.org/'']"

definition script_cfg :: "crawl_cfg \<Rightarrow> crawl_cfg" where
  "script_cfg env = env\<lparr>limit := 20\<rparr>"

definition script_crawl_start :: "real \<Rightarrow> crawler" where
  "script_crawl_start t0 = crawl_start (crawler_new t0) pipeline_seeds 3"

lemma doc_table_keys_add_all:
  "fst ` set (doc_table (add_all docs idx)) = fst ` set (doc_table idx) \<union> fst ` set docs"
proof (induction docs idx rule: add_all.induct)
  case (2 d doc ds idx)
  then show ?case using dict_keys_update [of d doc "doc_table idx"] by auto
qed simp

lemma api_init_ok:
  "fst ` set (snap_doc_table s) \<subseteq> fst ` set emb \<Longrightarrow> api_ok \<lparr>encoder = enc, embeddings_file = emb\<rparr> (api_init s)"
  by (simp add: api_ok_def api_init_def index_load_def Let_def)

lemma pipeline_serve_ok:
  assumes "pipeline_serve enc l = Inr (st, env)"
  shows "api_ok env st"
proof -
  let ?idx = "add_all (json_docs l) empty_index"
  let ?emb = "foldl (\<lambda>e (d, doc). AList.update d (enc (projr (embed_text doc))) e) [] (json_docs l)"
  have "listing_parses l" and st: "st = api_init (index_save ?idx)" and env: "env = \<lparr>encoder = enc, embeddings_file = ?emb\<rparr>"
    using assms by (auto simp: pipeline_serve_def indexer_build_def build_docs_eq embedder_build_def embedder_loop_eq
                         split: if_splits option.splits)
  have "fst ` set (snap_doc_table (index_save ?idx)) = fst ` set (json_docs l)"
    using doc_table_keys_add_all [of "json_docs l" empty_index] by (simp add: index_save_def empty_index_def)
  also have "\<dots> = fst ` set ?emb" using keys_foldl_update [of "\<lambda>doc. enc (projr (embed_text doc))" "[]" "json_docs l"] by simp
  finally show ?thesis using st env api_init_ok by simp
qed

lemma serve_requests_ok: "api_ok env st \<Longrightarrow> Inl KeyError \<notin> set (serve_requests env st reqs)"
proof (induction reqs arbitrary: st)
  case (Cons req reqs)
  obtain st' r where s: "search env st req = (st', r)" by fastforce
  then show ?case
    using search_not_KeyError [OF Cons.prems, of req] api_ok_search [OF Cons.prems, of req] Cons.IH [of st']
    by simp
qed simp

lemma json_docs_Some:
  "list_all (\<lambda>(f, d). is_json_name f) ds \<Longrightarrow>
   json_docs (map (\<lambda>(f, d). (f, Some d)) ds) = map (\<lambda>(f, d). (remove_all json_ext f, d)) ds"
  by (induction ds) auto

lemma json_named_fst:
  assumes "\<forall>x\<in>set L. \<exists>h. fst x = h @ ''.json'' \<and> CHR ''.'' \<notin> set h" and "x \<in> set L"
  shows "fst x = remove_all json_ext (fst x) @ ''.json''"
proof -
  have "\<exists>h. fst x = h @ ''.json'' \<and> CHR ''.'' \<notin> set h" using assms by (rule bspec)
  then obtain h where "fst x = h @ ''.json''" "CHR ''.'' \<notin> set h" by (elim exE conjE)
  then show ?thesis by (simp add: remove_all_json)
qed

lemma json_named_is_json:
  assumes "\<forall>x\<in>set L. \<exists>h. fst x = h @ ''.json'' \<and> CHR ''.'' \<notin> set h"
  shows "list_all (\<lambda>(f, d). is_json_name f) L"
proof -
  have "is_json_name (fst x)" if "x \<in> set L" for x
    using json_named_fst [OF assms that] by (metis is_json_name_def json_ext_def suffix_def)
  then show ?thesis by (simp add: list_all_iff split_def)
qed

lemma json_named_keys:
  assumes names: "\<forall>x\<in>set L. \<exists>h. fst x = h @ ''.json'' \<and> CHR ''.'' \<notin> set h"
    and dist: "distinct (map fst L)"
  shows "distinct (map (\<lambda>(f, d). remove_all json_ext f) L)"
proof -
  have inj: "inj_on (remove_all json_ext) (fst ` set L)"
  proof (rule inj_onI)
    fix a b assume "a \<in> fst ` set L" "b \<in> fst ` set L" and eq: "remove_all json_ext a = remove_all json_ext b"
    then obtain x y where "x \<in> set L" "y \<in> set L" "a = fst x" "b = fst y" by blast
    then show "a = b" using json_named_fst [OF names] eq by metis
  qed
  have "distinct (map (remove_all json_ext) (map fst L))"
    unfolding distinct_map [of _ "map fst L"] set_map using dist inj by blast
  then show ?thesis by (simp add: split_def comp_def)
qed

lemma json_named_dedupe:
  assumes names: "\<forall>x\<in>set L. \<exists>h. fst x = h @ ''.json'' \<and> CHR ''.'' \<notin> set h"
    and dist: "distinct (map fst L)"
  shows "dedupe dcfg nb r (map (\<lambda>(f, d). (f, Some d)) L) = Inr (greedy nb r (doc_sig dcfg) [] L)"
    and "subseq (greedy nb r (doc_sig dcfg) [] L) L"
proof -
  have jf: "json_files (map (\<lambda>(f, d). (f, Some d)) L) = L"
    using json_named_is_json [OF names] by (rule json_files_Some)
  show sq: "subseq (greedy nb r (doc_sig dcfg) [] L) L"
    using greedy_subseq [of "[]" "[]" nb r "doc_sig dcfg" L] by simp
  show "dedupe dcfg nb r (map (\<lambda>(f, d). (f, Some d)) L) = Inr (greedy nb r (doc_sig dcfg) [] L)"
    using subseq_distinct_map [OF sq json_named_keys [OF names dist]]
    by (simp add: dedupe_Inr listing_parses_Some jf)
qed

lemma json_docs_titled:
  "list_all (\<lambda>(f, d). title d \<noteq> None) L \<Longrightarrow> list_all titled (json_docs (map (\<lambda>(f, d). (f, Some d)) L))"
  by (induction L) (auto simp: titled_def)

lemma pipeline_serve_Some:
  "list_all (\<lambda>(f, d). title d \<noteq> None) L \<Longrightarrow>
   pipeline_serve enc (map (\<lambda>(f, d). (f, Some d)) L) =
     Inr (api_init (index_save (add_all (json_docs (map (\<lambda>(f, d). (f, Some d)) L)) empty_index)),
          \<lparr>encoder = enc, embeddings_file = foldl (\<lambda>e (d, doc). AList.update d (enc (projr (embed_text doc))) e) []
             (json_docs (map (\<lambda>(f, d). (f, Some d)) L))\<rparr>)"
  by (simp add: pipeline_serve_def indexer_build_def build_docs_eq embedder_build_def embedder_loop_eq
      listing_parses_Some json_docs_titled embed_error_None [THEN iffD2])

lemma api_init_doc_table: "doc_table (api_index (api_init (index_save idx))) = doc_table idx"
  by (simp add: api_init_def index_load_def index_save_def Let_def)


text \<open>A service over documents from \<open>Parser\<close>: a lexical query made of stop words (after
  \<open>lower().split()\<close>) matches no token, since \<open>Document.tokenize\<close> removed them, so every
  hit scores 0 and has no highlights.\<close>

lemma stopword_query_unmatched:
  assumes "search env st req = (st', Inr hs)" "\<not> useSemantic req"
    and "bm_index (api_bm25 st) = api_index st"
    and "\<forall>(d, doc)\<in>set (doc_table (api_index st)). tokens doc = doc_tokenize pc (body doc)"
    and "set (py_split_ws (py_lower (query req))) \<subseteq> stopwords pc"
  shows "\<forall>h\<in>set hs. hit_score h = 0 \<and> hit_highlights h = []"
proof (rule search_unmatched_terms [OF assms(1-3)])
  show "\<forall>(d, doc)\<in>set (doc_table (api_index st)). \<forall>t\<in>set (py_split_ws (py_lower (query req))). t \<notin> set (tokens doc)"
  proof clarify
    fix d doc t assume "(d, doc) \<in> set (doc_table (api_index st))" "t \<in> set (py_split_ws (py_lower (query req)))"
      "t \<in> set (tokens doc)"
    then show False using assms(4,5) doc_tokenize_normal [of pc "body doc"] by (fastforce simp: list_all_iff)
  qed
qed

text \<open>The script's crawl: started with four seeds and three workers, it stores at most
  22 pages although it asks for 20, and it can be brought to its end by at most 11 events
  (each seed popped, each worker exiting).\<close>

lemma script_crawl_bounds:
  assumes "crawl_reach (script_cfg env) t0 pipeline_seeds 3 s"
  shows "card (visited s) \<le> 22"
    and "\<exists>es s'. crawl_run (script_cfg env) (script_crawl_start t0) es = Some s' \<and>
           crawl_finished s' \<and> length es \<le> 11"
proof -
  show "card (visited s) \<le> 22"
    using crawl_reach_bound_inv [OF assms] by (simp add: bound_inv_def script_cfg_def)
  have "finite (frontier (script_crawl_start t0))"
    by (simp add: script_crawl_start_def crawl_start_def crawler_new_def pipeline_seeds_def)
  moreover have "finish_bound (script_crawl_start t0) = 11"
    by (simp add: finish_bound_def script_crawl_start_def crawl_start_def crawler_new_def pipeline_seeds_def numeral_3_eq_3)
  ultimately show "\<exists>es s'. crawl_run (script_cfg env) (script_crawl_start t0) es = Some s' \<and>
           crawl_finished s' \<and> length es \<le> 11"
    using crawl_finish_from [of "script_crawl_start t0" "script_cfg env"] by simp
qed

text \<open>
  C17. The deduplicated directory is a valid input of the indexer: when \<open>Deduplicator.dedupe\<close>
  completes, indexing the files it wrote completes, the index is well formed, its document
  table holds every written file under its key, and \<open>N\<close> counts them. The distinct keys
  that \<open>indexer_build_wf\<close> assumes are guaranteed by the detector, whose
  \<open>MinHashLSH.insert\<close> refuses a key twice.
\<close>

theorem dedupe_then_index:
  assumes "dedupe cfg nb r l = Inr out"
  shows "\<exists>idx. indexer_build (map (\<lambda>(f, d). (f, Some d)) out) = Inr idx \<and> index_wf idx \<and>
           doc_table idx = map (\<lambda>(f, d). (remove_all json_ext f, d)) out \<and> N idx = length out"
proof -
  let ?docs = "map (\<lambda>(f, d). (remove_all json_ext f, d)) out"
  have j: "json_docs (map (\<lambda>(f, d). (f, Some d)) out) = ?docs"
    using dedupe_out_json [OF assms] by (rule json_docs_Some)
  have "distinct (map (\<lambda>(f, d). remove_all json_ext f) out)"
    using assms unfolding dedupe_Inr by blast
  then have d: "distinct (map fst ?docs)" by (simp add: split_def comp_def)
  have b: "indexer_build (map (\<lambda>(f, d). (f, Some d)) out) = Inr (add_all ?docs empty_index)"
    by (simp add: indexer_build_def build_docs_eq listing_parses_Some j)
  have "index_wf (add_all ?docs empty_index)"
    using d by (intro index_wf_add_all index_wf_empty) (simp add: empty_index_def)
  moreover have "doc_table (add_all ?docs empty_index) = ?docs"
    using d doc_table_add_all [of empty_index ?docs] by (simp add: empty_index_def)
  moreover have "N (add_all ?docs empty_index) = length out"
    using add_all_empty [of ?docs] by simp
  ultimately show ?thesis using b by blast
qed

theorem dedupe_then_index_witness:
  "\<exists>idx. indexer_build [(''a.json'', Some (pd ''a'' [''x''])), (''b.json'', Some (pd ''b'' [''y'']))] = Inr idx \<and>
     index_wf idx \<and> doc_table idx = [(''a'', pd ''a'' [''x'']), (''b'', pd ''b'' [''y''])] \<and> N idx = 2"
proof -
  have e: "dedupe dd_cfg 1 1 [(''a.json'', Some (pd ''a'' [''x''])), (''b.json'', Some (pd ''b'' [''y''])),
                     (''c.json'', Some (pd ''c'' [''x'', ''x'']))] =
     Inr [(''a.json'', pd ''a'' [''x'']), (''b.json'', pd ''b'' [''y''])]"
    by (simp add: dedupe_eval pystr)
  from dedupe_then_index [OF e] show ?thesis by (simp add: json_ext_def pystr numeral_2_eq_2)
qed

text \<open>
  C16. The pipeline feeds the service: when the index and the embeddings are built from the
  same directory (\<^verbatim>\<open>run_pipeline.py\<close> steps 4 and 5) and served by \<^verbatim>\<open>api.py\<close>,
  no response to any sequence of search requests is a \<open>KeyError\<close>: every document of the
  table has an embedding, and every lookup of the handler stays within the table.
\<close>

theorem pipeline_no_KeyError:
  assumes "pipeline_serve enc l = Inr (st, env)"
  shows "Inl KeyError \<notin> set (serve_requests env st reqs)"
  using serve_requests_ok [OF pipeline_serve_ok [OF assms]] .

theorem pipeline_no_KeyError_witness:
  "Inl KeyError \<notin> set (serve_requests \<lparr>encoder = \<lambda>s. [1], embeddings_file = [(''a'', [1])]\<rparr>
      (api_init (index_save (add_all [(''a'', pd ''u'' [''x''])] empty_index)))
      [\<lparr>query = ''x'', topK = 10, useSemantic = True, site = None, dateRange = None\<rparr>,
       \<lparr>query = ''y'', topK = 5, useSemantic = False, site = Some ''u'', dateRange = None\<rparr>])"
proof -
  have "pipeline_serve (\<lambda>s. [1]) [(''a.json'', Some (pd ''u'' [''x'']))] =
          Inr (api_init (index_save (add_all [(''a'', pd ''u'' [''x''])] empty_index)),
               \<lparr>encoder = \<lambda>s. [1], embeddings_file = [(''a'', [1])]\<rparr>)"
    by (simp add: pipeline_serve_def indexer_build_def build_docs_eq embedder_build_def embedder_loop_eq
                  listing_parses_def is_json_name_def json_ext_def pystr pd_def)
  then show ?thesis by (rule pipeline_no_KeyError)
qed

text \<open>
  C18. The whole pipeline after a crawl: when the raw directory holds exactly what
  \<open>Crawler.save\<close> wrote for the stored pages, listed in any order, no stored page has a
  canonical link without \<open>href\<close>, every stored page has a title string
  (\<open>soup.title.string\<close> is not \<open>None\<close>), and the parsed and
  deduplicated directories start empty, parsing, deduplication, indexing and embedding all
  complete, no search request is ever answered with \<open>KeyError\<close>, and every document the
  service holds is the document parsed from a stored page, under the SHA-256 digest of its URL.
\<close>

theorem crawl_to_service:
  assumes pages: "distinct (map fst pages)" "map_of pages = storage s"
    and inj: "inj_on (sha_hex pc) (dom (storage s))"
    and dots: "\<forall>u\<in>dom (storage s). CHR ''.'' \<notin> set (sha_hex pc u)"
    and times: "\<forall>p\<in>ran (storage s). float_lit (ftxt (page_fetch_time p))"
    and canon: "\<forall>p\<in>ran (storage s). \<not> isl (canonical_href pc (page_html p))"
    and titles: "\<forall>p\<in>ran (storage s). fst (html_fields pc (page_html p)) \<noteq> None"
    and raw: "mset raw = mset (raw_dir (sha_hex pc) ftxt pages)"
    and ls: "\<forall>d. mset (ls d) = mset d"
  shows "\<exists>st env. run_pipeline pc dcfg nb r enc ls raw [] [] = Inr (st, env) \<and>
           Inl KeyError \<notin> set (serve_requests env st reqs) \<and>
           (\<forall>(k, doc)\<in>set (doc_table (api_index st)).
              \<exists>u p. storage s u = Some p \<and> k = sha_hex pc u \<and> doc = make_document pc u (page_html p))"
proof -
  let ?sha = "sha_hex pc"
  let ?doc = "\<lambda>up. (?sha (fst up) @ ''.json'', make_document pc (fst up) (page_html (snd up)))"
  let ?Some = "map (\<lambda>(f, d). (f, Some d))"
  note dom = storage_pages(1) [OF pages] and pin = storage_pages(2) [OF pages]
  note ok = storage_pages_ok [OF pages dots times canon]
  have "inj_on ?sha (fst ` set pages)" using inj unfolding dom .
  then obtain out where po: "parse_all pc raw = Inr out" and dout: "distinct (map fst out)"
    and so: "set out \<subseteq> ?doc ` set pages"
    using parse_saved_out [OF pages(1) _ ok raw] by blast
  let ?L1 = "ls out"
  have s1: "set ?L1 = set out" using ls mset_eq_setD by blast
  have d1: "distinct (map fst ?L1)" using distinct_mset_map [OF dout] ls by blast
  have n1: "\<forall>x\<in>set ?L1. \<exists>h. fst x = h @ ''.json'' \<and> CHR ''.'' \<notin> set h"
    using s1 so ok by fastforce
  let ?g = "greedy nb r (doc_sig dcfg) [] ?L1"
  have dd: "dedupe dcfg nb r (?Some ?L1) = Inr ?g" and sq: "subseq ?g ?L1"
    using json_named_dedupe [OF n1 d1] by blast+
  have dg: "distinct (map fst ?g)" using subseq_distinct_map [OF sq d1] .
  then have fg: "foldl (\<lambda>acc (k, v). AList.update k v acc) [] ?g = ?g"
    using foldl_update_distinct [of "[]" ?g] by simp
  let ?L2 = "ls ?g"
  have s2: "set ?L2 \<subseteq> set out" using ls mset_eq_setD list_emb_set [OF sq] s1 by blast
  have n2: "\<forall>x\<in>set ?L2. \<exists>h. fst x = h @ ''.json'' \<and> CHR ''.'' \<notin> set h" using n1 s2 s1 by blast
  have d2: "distinct (map fst ?L2)" using distinct_mset_map [OF dg] ls by blast
  have run: "run_pipeline pc dcfg nb r enc ls raw [] [] = pipeline_serve enc (?Some ?L2)"
    using po [unfolded parse_all_def] dd fg by (simp add: run_pipeline_def)
  have "title d \<noteq> None" if fd: "(f, d) \<in> set ?L2" for f d
  proof -
    obtain u p where up: "(u, p) \<in> set pages" and "d = make_document pc u (page_html p)"
      using fd s2 so by fastforce
    moreover have "p \<in> ran (storage s)" using pin up by (blast intro: ranI)
    ultimately show ?thesis using titles by (simp add: make_document_title)
  qed
  then have tl: "list_all (\<lambda>(f, d). title d \<noteq> None) ?L2" by (auto simp: list_all_iff)
  let ?docs = "json_docs (?Some ?L2)"
  obtain st env where ps: "pipeline_serve enc (?Some ?L2) = Inr (st, env)"
    and st: "st = api_init (index_save (add_all ?docs empty_index))"
    using pipeline_serve_Some [OF tl, of enc] by blast
  have nk: "Inl KeyError \<notin> set (serve_requests env st reqs)"
    using serve_requests_ok [OF pipeline_serve_ok [OF ps]] .
  have docs: "?docs = map (\<lambda>(f, d). (remove_all json_ext f, d)) ?L2"
    using json_named_is_json [OF n2] by (rule json_docs_Some)
  have "distinct (map fst ?docs)" unfolding docs using json_named_keys [OF n2 d2] by (simp add: split_def comp_def)
  then have "doc_table (api_index st) = ?docs"
    using doc_table_add_all [of empty_index ?docs] by (simp add: st api_init_doc_table empty_index_def)
  then have dt: "doc_table (api_index st) = ?docs" .
  have ex: "\<exists>u p. storage s u = Some p \<and> k = ?sha u \<and> doc = make_document pc u (page_html p)"
    if kd: "(k, doc) \<in> set ?docs" for k doc
  proof -
    have "(k, doc) \<in> (\<lambda>(f, d). (remove_all json_ext f, d)) ` set ?L2" using kd docs by simp
    then obtain f where f: "(f, doc) \<in> set ?L2" "k = remove_all json_ext f" by force
    then have "(f, doc) \<in> ?doc ` set pages" using s2 so by blast
    then obtain u p where up: "(u, p) \<in> set pages" and fd: "(f, doc) = ?doc (u, p)" by auto
    have "CHR ''.'' \<notin> set (?sha u)" using bspec [OF ok up] by simp
    then have "k = ?sha u" using f(2) fd by (simp add: remove_all_json)
    moreover have "storage s u = Some p" using pin up by blast
    moreover have "doc = make_document pc u (page_html p)" using fd by simp
    ultimately show ?thesis by blast
  qed
  show ?thesis
  proof (intro exI conjI)
    show "run_pipeline pc dcfg nb r enc ls raw [] [] = Inr (st, env)" using run ps by simp
    show "Inl KeyError \<notin> set (serve_requests env st reqs)" by (rule nk)
    show "\<forall>(k, doc)\<in>set (doc_table (api_index st)).
            \<exists>u p. storage s u = Some p \<and> k = ?sha u \<and> doc = make_document pc u (page_html p)"
      unfolding dt using ex by blast
  qed
qed

theorem crawl_to_service_witness:
  "\<exists>st env. run_pipeline \<lparr>sha_hex = \<lambda>u. ''ab'', html_fields = \<lambda>h. (Some ''T'', [], h), html_lang = \<lambda>h. None,
      canonical_attrs = \<lambda>h. None, anchor_hrefs = \<lambda>h. [], nlp = \<lambda>b. [\<lparr>tok_lemma = b, tok_alpha = True\<rparr>], stopwords = {}\<rparr>
      dd_cfg 1 1 (\<lambda>t. [1]) id
      [(''ab.meta'', meta_text ''http://a/'' ''1.5'' ''ab''), (''ab.html'', ''<p>x</p>'')] [] [] = Inr (st, env) \<and>
    Inl KeyError \<notin> set (serve_requests env st
      [\<lparr>query = ''x'', topK = 10, useSemantic = True, site = None, dateRange = None\<rparr>]) \<and>
    set (doc_table (api_index st)) \<subseteq>
      {(''ab'', \<lparr>url = ''http://a/'', title = Some ''T'', headings = [], body = ''<p>x</p>'', tokens = [''<p>x</p>'']\<rparr>)}"
proof -
  let ?pc = "\<lparr>sha_hex = \<lambda>u. ''ab'', html_fields = \<lambda>h. (Some ''T'', [], h), html_lang = \<lambda>h. None,
      canonical_attrs = \<lambda>h. None, anchor_hrefs = \<lambda>h. [], nlp = \<lambda>b. [\<lparr>tok_lemma = b, tok_alpha = True\<rparr>], stopwords = {}\<rparr>"
  let ?p = "\<lparr>page_html = ''<p>x</p>'', page_fetch_time = 1.5\<rparr>"
  let ?pages = "[(''http://a/'', ?p)]"
  let ?s = "(crawler_new 0)\<lparr>storage := map_of ?pages\<rparr>"
  let ?raw = "[(''ab.meta'', meta_text ''http://a/'' ''1.5'' ''ab''), (''ab.html'', ''<p>x</p>'')]"
  let ?reqs = "[\<lparr>query = ''x'', topK = 10, useSemantic = True, site = None, dateRange = None\<rparr>]"
  have "\<exists>st env. run_pipeline ?pc dd_cfg 1 1 (\<lambda>t. [1]) id ?raw [] [] = Inr (st, env) \<and>
          Inl KeyError \<notin> set (serve_requests env st ?reqs) \<and>
          (\<forall>(k, doc)\<in>set (doc_table (api_index st)).
             \<exists>u p. storage ?s u = Some p \<and> k = sha_hex ?pc u \<and> doc = make_document ?pc u (page_html p))"
  proof (rule crawl_to_service [of ?pages ?s ?pc "\<lambda>t. ''1.5''"])
    show "distinct (map fst ?pages)" by simp
    show "map_of ?pages = storage ?s" by (simp add: crawler_new_def)
    show "inj_on (sha_hex ?pc) (dom (storage ?s))" by (simp add: crawler_new_def)
    show "\<forall>u\<in>dom (storage ?s). CHR ''.'' \<notin> set (sha_hex ?pc u)" by (simp add: crawler_new_def)
    show "\<forall>p\<in>ran (storage ?s). float_lit ((\<lambda>t. ''1.5'') (page_fetch_time p))"
      by (simp add: crawler_new_def float_lit_def is_digit_def)
    show "\<forall>p\<in>ran (storage ?s). \<not> isl (canonical_href ?pc (page_html p))"
      by (simp add: crawler_new_def canonical_href_def)
    show "\<forall>p\<in>ran (storage ?s). fst (html_fields ?pc (page_html p)) \<noteq> None"
      by (simp add: crawler_new_def)
    show "mset ?raw = mset (raw_dir (sha_hex ?pc) (\<lambda>t. ''1.5'') ?pages)"
      by (simp add: raw_dir_def save_files_def add_mset_commute)
    show "\<forall>d. mset (id d) = mset d" by simp
  qed
  then obtain st env where r: "run_pipeline ?pc dd_cfg 1 1 (\<lambda>t. [1]) id ?raw [] [] = Inr (st, env)"
    and k: "Inl KeyError \<notin> set (serve_requests env st ?reqs)"
    and d: "\<forall>(k, doc)\<in>set (doc_table (api_index st)).
             \<exists>u p. storage ?s u = Some p \<and> k = sha_hex ?pc u \<and> doc = make_document ?pc u (page_html p)"
    by blast
  have sp: "storage ?s u = Some p \<Longrightarrow> u = ''http://a/'' \<and> p = ?p" for u p
    by (simp add: crawler_new_def split: if_splits)
  have "set (doc_table (api_index st)) \<subseteq>
      {(''ab'', \<lparr>url = ''http://a/'', title = Some ''T'', headings = [], body = ''<p>x</p>'', tokens = [''<p>x</p>'']\<rparr>)}"
  proof (rule subsetI)
    fix x assume x: "x \<in> set (doc_table (api_index st))"
    obtain k doc where kd: "x = (k, doc)" by fastforce
    obtain u p where up: "storage ?s u = Some p" and "k = sha_hex ?pc u" "doc = make_document ?pc u (page_html p)"
      using bspec [OF d x] unfolding kd by blast
    moreover have "u = ''http://a/''" "p = ?p" using sp [OF up] by simp_all
    ultimately show "x \<in> {(''ab'', \<lparr>url = ''http://a/'', title = Some ''T'', headings = [], body = ''<p>x</p>'',
        tokens = [''<p>x</p>'']\<rparr>)}"
      using kd by (simp add: make_document_def doc_tokenize_def py_lower_def py_lower_char_def)
  qed
  then show ?thesis using r k by blast
qed

end
